theory Spec2Isabelle
  imports Main "HOL-Library.Word"
begin

section \<open>MessageInput: the chat input component\<close>

text \<open>
  A shallow embedding of \<^verbatim>\<open>src/components/MessageInput.jsx\<close>. The component is a
  React function component: six pieces of per-instance storage (four \<^verbatim>\<open>useState\<close>
  cells, two \<^verbatim>\<open>useRef\<close> cells), five event handlers, one effect cleanup, and the
  \<^verbatim>\<open>disabled\<close> expression of the submit button. Every handler is a function from
  the component state and the browser environment to the new pair. Everything a handler
  does to the outside (callbacks, alerts, object URLs, timers, the upload call) is
  appended to a time-stamped log held in the environment.
\<close>

subsection \<open>JavaScript strings\<close>

text \<open>
  A JavaScript string is a sequence of UTF-16 code units. \<open>js\<close> writes an ASCII
  literal of the source as such a sequence.
\<close>

type_synonym jsstring = "16 word list"

definition js :: "string \<Rightarrow> jsstring" where
  "js s = map of_char s"

text \<open>
  \<^verbatim>\<open>String.prototype.trim\<close> removes the code units of ECMAScript's WhiteSpace and
  LineTerminator productions from both ends: TAB, LF, VT, FF, CR, SP, NBSP, the Unicode
  space separators (U+1680, U+2000 to U+200A, U+202F, U+205F, U+3000), LS, PS and the
  byte order mark.
\<close>

definition isWhiteSpace :: "16 word \<Rightarrow> bool" where
  "isWhiteSpace c \<longleftrightarrow>
     c = 0x0009 \<or> c = 0x000A \<or> c = 0x000B \<or> c = 0x000C \<or> c = 0x000D \<or>
     c = 0x0020 \<or> c = 0x00A0 \<or> c = 0x1680 \<or> (0x2000 \<le> c \<and> c \<le> 0x200A) \<or>
     c = 0x2028 \<or> c = 0x2029 \<or> c = 0x202F \<or> c = 0x205F \<or> c = 0x3000 \<or> c = 0xFEFF"

definition trim :: "jsstring \<Rightarrow> jsstring" where
  "trim s = rev (dropWhile isWhiteSpace (rev (dropWhile isWhiteSpace s)))"

text \<open>\<^verbatim>\<open>s.startsWith(p)\<close>.\<close>

definition startsWith :: "jsstring \<Rightarrow> jsstring \<Rightarrow> bool" where
  "startsWith s p \<longleftrightarrow> take (length p) s = p"

text \<open>
  Truthiness of a value that is a string or missing (\<^verbatim>\<open>undefined\<close>): only a
  non-empty string is truthy. \<open>orElse a b\<close> is \<^verbatim>\<open>a || b\<close> for such values.
\<close>

definition truthy :: "jsstring option \<Rightarrow> bool" where
  "truthy v = (case v of None \<Rightarrow> False | Some s \<Rightarrow> s \<noteq> [])"

definition orElse :: "jsstring option \<Rightarrow> jsstring option \<Rightarrow> jsstring option" where
  "orElse a b = (if truthy a then a else b)"

subsection \<open>Data\<close>

text \<open>A picked \<^verbatim>\<open>File\<close>: the handlers read \<^verbatim>\<open>size\<close> and \<^verbatim>\<open>type\<close>.\<close>

record jsfile =
  file_name :: jsstring
  file_size :: nat
  file_type :: jsstring

text \<open>The props. A callback prop is either supplied or not; calling it is logged.\<close>

record props =
  chatId_p :: jsstring
  receiverId_p :: jsstring
  onSendMessage :: bool
  onTyping :: bool
  onStopTyping :: bool

text \<open>\<^verbatim>\<open>messageData\<close>, the payload built at lines 86 to 92.\<close>

record messageData =
  chatId :: jsstring
  receiverId :: jsstring
  text_m :: jsstring
  mediaURL :: jsstring
  mediaType :: jsstring

text \<open>
  What \<^verbatim>\<open>uploadService.uploadImage\<close> settles with. A resolved response carries the
  truthiness of \<^verbatim>\<open>success\<close>, \<^verbatim>\<open>data\<close> (missing, or an object whose \<^verbatim>\<open>url\<close> is
  missing or a string) and \<^verbatim>\<open>message\<close>. A rejection carries an error object of which
  the handler reads \<^verbatim>\<open>error.response?.data?.message\<close> and \<^verbatim>\<open>error.message\<close>.
\<close>

record uploadResponse =
  success :: bool
  data :: "jsstring option option"
  message :: "jsstring option"

record uploadError =
  response_data_message :: "jsstring option"
  error_message :: "jsstring option"

datatype upload_outcome = Resolved uploadResponse | Rejected uploadError

text \<open>The component's state cells and refs (lines 25 to 30).\<close>

record state =
  text_s :: jsstring
  uploading :: bool
  selectedImage :: "nat option"
  selectedFile :: "jsfile option"
  fileInputRef :: "jsstring option"
  typingTimeoutRef :: "nat option"

text \<open>
  \<open>selectedImage\<close> holds an object URL, here the number of the handle.
  \<open>fileInputRef\<close> is the \<^verbatim>\<open>value\<close> of the hidden file input the ref points to, or
  \<open>None\<close> while the ref is \<^verbatim>\<open>null\<close>. \<open>typingTimeoutRef\<close> holds a timer id.
\<close>

text \<open>
  The part of an invocation of \<^verbatim>\<open>handleSend\<close> that is suspended at the
  \<^verbatim>\<open>await\<close> of line 64: the props and arguments its closure captured.
\<close>

record pending =
  pd_props :: props
  pd_file :: jsfile
  pd_messageText :: jsstring
  pd_mediaType :: jsstring

datatype effect =
    OnSendMessage messageData
  | OnTyping
  | OnStopTyping
  | Alert jsstring
  | ConsoleError uploadError
  | UploadImage jsfile
  | CreateObjectURL jsfile nat
  | RevokeObjectURL nat

text \<open>
  The browser: a clock in milliseconds, the pending timers (id, time at which it fires,
  whether the callback captured an \<^verbatim>\<open>onStopTyping\<close>), the object URLs created and not
  yet revoked, the upload calls in flight, and the log.
\<close>

record env =
  now :: nat
  timers :: "(nat \<times> nat \<times> bool) list"
  timerCount :: nat
  liveURLs :: "nat list"
  nextURL :: nat
  uploads :: "pending list"
  log :: "(nat \<times> effect) list"

subsection \<open>Browser operations\<close>

definition emit :: "effect \<Rightarrow> env \<Rightarrow> env" where
  "emit e w = w\<lparr>log := log w @ [(now w, e)]\<rparr>"

definition alert :: "jsstring \<Rightarrow> env \<Rightarrow> env" where
  "alert m = emit (Alert m)"

text \<open>\<^verbatim>\<open>URL.createObjectURL\<close> hands out a handle never used before.\<close>

definition createObjectURL :: "jsfile \<Rightarrow> env \<Rightarrow> nat \<times> env" where
  "createObjectURL f w =
     (nextURL w,
      emit (CreateObjectURL f (nextURL w))
        (w\<lparr>liveURLs := nextURL w # liveURLs w, nextURL := Suc (nextURL w)\<rparr>))"

definition revokeObjectURL :: "nat \<Rightarrow> env \<Rightarrow> env" where
  "revokeObjectURL u w = emit (RevokeObjectURL u) (w\<lparr>liveURLs := removeAll u (liveURLs w)\<rparr>)"

text \<open>
  \<^verbatim>\<open>setTimeout\<close> returns an id greater than zero, different from every earlier one;
  \<^verbatim>\<open>clearTimeout\<close> drops the timer of that id if it is still pending.
\<close>

definition setTimeout :: "bool \<Rightarrow> nat \<Rightarrow> env \<Rightarrow> nat \<times> env" where
  "setTimeout cb delay w =
     (Suc (timerCount w),
      w\<lparr>timers := timers w @ [(Suc (timerCount w), now w + delay, cb)],
        timerCount := Suc (timerCount w)\<rparr>)"

definition clearTimeout :: "nat \<Rightarrow> env \<Rightarrow> env" where
  "clearTimeout i w = w\<lparr>timers := filter (\<lambda>t. fst t \<noteq> i) (timers w)\<rparr>"

subsection \<open>The handlers\<close>

text \<open>Lines 103 to 105, 126 to 128, 149 to 151, 158 to 160.\<close>

definition resetFileInput :: "state \<Rightarrow> state" where
  "resetFileInput s =
     (case fileInputRef s of None \<Rightarrow> s | Some _ \<Rightarrow> s\<lparr>fileInputRef := Some []\<rparr>)"

text \<open>\<^verbatim>\<open>handleTextChange\<close>, lines 33 to 55.\<close>

definition handleTextChange :: "props \<Rightarrow> jsstring \<Rightarrow> state \<times> env \<Rightarrow> state \<times> env" where
  "handleTextChange p v = (\<lambda>(s, w).
     let s1 = s\<lparr>text_s := v\<rparr>;
         w1 = (if onTyping p then emit OnTyping w else w);
         w2 = (case typingTimeoutRef s1 of
                 None \<Rightarrow> w1
               | Some i \<Rightarrow> if i \<noteq> 0 then clearTimeout i w1 else w1);
         (i, w3) = setTimeout (onStopTyping p) 1000 w2
     in (s1\<lparr>typingTimeoutRef := Some i\<rparr>, w3))"

text \<open>\<^verbatim>\<open>handleImageSelect\<close>, lines 141 to 172; the argument is \<^verbatim>\<open>e.target.files[0]\<close>.\<close>

definition handleImageSelect :: "jsfile option \<Rightarrow> state \<times> env \<Rightarrow> state \<times> env" where
  "handleImageSelect fo = (\<lambda>(s, w).
     case fo of
       None \<Rightarrow> (s, w)
     | Some f \<Rightarrow>
         if file_size f > 5 * 1024 * 1024 then
           (resetFileInput s, alert (js ''File size must be less than 5MB'') w)
         else if \<not> startsWith (file_type f) (js ''image/'') then
           (resetFileInput s, alert (js ''Please select an image file'') w)
         else
           let s1 = s\<lparr>selectedFile := Some f\<rparr>;
               (imageURL, w1) = createObjectURL f w
           in (s1\<lparr>selectedImage := Some imageURL\<rparr>, w1))"

text \<open>\<^verbatim>\<open>handleRemoveImage\<close>, lines 120 to 129.\<close>

definition handleRemoveImage :: "state \<times> env \<Rightarrow> state \<times> env" where
  "handleRemoveImage = (\<lambda>(s, w).
     let w1 = (case selectedImage s of None \<Rightarrow> w | Some u \<Rightarrow> revokeObjectURL u w)
     in (resetFileInput (s\<lparr>selectedImage := None, selectedFile := None\<rparr>), w1))"

text \<open>
  \<^verbatim>\<open>handleSend\<close>, lines 58 to 108, in three parts. \<open>sendTail\<close> is lines 84 to 105,
  reached with the final \<^verbatim>\<open>mediaURL\<close> and \<^verbatim>\<open>mediaType\<close>.
\<close>

definition sendTail ::
  "props \<Rightarrow> jsstring \<Rightarrow> jsstring \<Rightarrow> jsstring \<Rightarrow> state \<times> env \<Rightarrow> state \<times> env" where
  "sendTail p messageText mURL mType = (\<lambda>(s, w).
     if trim messageText = [] \<and> mURL = [] then (s, w)
     else
       let md = \<lparr>chatId = chatId_p p, receiverId = receiverId_p p,
                 text_m = trim messageText, mediaURL = mURL, mediaType = mType\<rparr>;
           w1 = (if onSendMessage p then emit (OnSendMessage md) w else w)
       in (resetFileInput (s\<lparr>text_s := [], selectedImage := None, selectedFile := None\<rparr>), w1))"

text \<open>
  Lines 59 to 64: up to the \<^verbatim>\<open>await\<close>. With a selected file and no media URL the
  invocation sets \<open>uploading\<close>, calls the upload service and is suspended; otherwise it
  goes on to line 84 at once.
\<close>

definition handleSend ::
  "props \<Rightarrow> jsstring \<Rightarrow> jsstring \<Rightarrow> jsstring \<Rightarrow> state \<times> env \<Rightarrow> state \<times> env" where
  "handleSend p messageText mURL mType = (\<lambda>(s, w).
     case selectedFile s of
       None \<Rightarrow> sendTail p messageText mURL mType (s, w)
     | Some f \<Rightarrow>
         if mURL = [] then
           (s\<lparr>uploading := True\<rparr>,
            emit (UploadImage f)
              (w\<lparr>uploads := uploads w @
                 [\<lparr>pd_props = p, pd_file = f, pd_messageText = messageText,
                   pd_mediaType = mType\<rparr>]\<rparr>))
         else sendTail p messageText mURL mType (s, w))"

text \<open>
  Lines 65 to 70: what the \<^verbatim>\<open>try\<close> block makes of the settled call. \<open>Inr url\<close> is
  the adopted URL; \<open>Inl e\<close> is the error that reaches the \<^verbatim>\<open>catch\<close>, either the
  rejection or the \<^verbatim>\<open>new Error(response.message || 'Upload failed')\<close> of line 69.
\<close>

definition tryUpload :: "upload_outcome \<Rightarrow> uploadError + jsstring" where
  "tryUpload out =
     (case out of
        Rejected e \<Rightarrow> Inl e
      | Resolved r \<Rightarrow>
          (case data r of
             Some (Some url) \<Rightarrow>
               if success r \<and> url \<noteq> [] then Inr url
               else Inl \<lparr>response_data_message = None,
                         error_message = orElse (message r) (Some (js ''Upload failed''))\<rparr>
           | _ \<Rightarrow> Inl \<lparr>response_data_message = None,
                       error_message = orElse (message r) (Some (js ''Upload failed''))\<rparr>))"

text \<open>Lines 73 to 75.\<close>

definition errorMessage :: "uploadError \<Rightarrow> jsstring" where
  "errorMessage e =
     (case orElse (orElse (response_data_message e) (error_message e))
             (Some (js ''Failed to upload image. Please check your Cloudinary configuration in the server .env file.'')) of
        Some m \<Rightarrow> m | None \<Rightarrow> [])"

text \<open>
  Lines 65 to 105: the invocation resumed with the settled upload. The \<^verbatim>\<open>catch\<close>
  logs, alerts, clears \<open>uploading\<close> and returns; otherwise \<^verbatim>\<open>finally\<close> clears
  \<open>uploading\<close> and the invocation goes on to line 84 with the URL and type
  \<^verbatim>\<open>'image'\<close>.
\<close>

definition afterUpload :: "pending \<Rightarrow> upload_outcome \<Rightarrow> state \<times> env \<Rightarrow> state \<times> env" where
  "afterUpload pd out = (\<lambda>(s, w).
     case tryUpload out of
       Inl e \<Rightarrow> (s\<lparr>uploading := False\<rparr>, alert (errorMessage e) (emit (ConsoleError e) w))
     | Inr url \<Rightarrow>
         sendTail (pd_props pd) (pd_messageText pd) url (js ''image'') (s\<lparr>uploading := False\<rparr>, w))"

text \<open>\<^verbatim>\<open>handleSubmit\<close>, lines 111 to 117.\<close>

definition handleSubmit :: "props \<Rightarrow> state \<times> env \<Rightarrow> state \<times> env" where
  "handleSubmit p = (\<lambda>(s, w). handleSend p (text_s s) [] [] (s, w))"

text \<open>The \<^verbatim>\<open>disabled\<close> expression of the submit button, line 235.\<close>

definition submitDisabled :: "state \<Rightarrow> bool" where
  "submitDisabled s \<longleftrightarrow> (trim (text_s s) = [] \<and> selectedFile s = None) \<or> uploading s"

text \<open>
  The cleanup of the effect of lines 132 to 138. React runs it with the
  \<open>selectedImage\<close> of the previous render once a render with a different
  \<open>selectedImage\<close> is committed, and at unmount.
\<close>

definition cleanup :: "state \<Rightarrow> env \<Rightarrow> env" where
  "cleanup s w = (case selectedImage s of None \<Rightarrow> w | Some u \<Rightarrow> revokeObjectURL u w)"

definition commit :: "state \<Rightarrow> state \<times> env \<Rightarrow> state \<times> env" where
  "commit old = (\<lambda>(s, w).
     if selectedImage old \<noteq> selectedImage s then (s, cleanup old w) else (s, w))"

definition unmount :: "state \<times> env \<Rightarrow> env" where
  "unmount = (\<lambda>(s, w). cleanup s w)"

subsection \<open>The component in the event loop\<close>

text \<open>
  Time passes in \<open>Elapse\<close>: the clock moves on and every timer that falls due fires,
  in the order in which the timers were set, at its own time. The timer callback of
  lines 48 to 52 calls \<^verbatim>\<open>onStopTyping\<close> if it captured one.
\<close>

definition fireTimer :: "nat \<times> nat \<times> bool \<Rightarrow> env \<Rightarrow> env" where
  "fireTimer t w =
     (let w1 = w\<lparr>now := max (now w) (fst (snd t))\<rparr>
      in if snd (snd t) then emit OnStopTyping w1 else w1)"

definition elapse :: "nat \<Rightarrow> env \<Rightarrow> env" where
  "elapse d w =
     (let t = now w + d;
          due = filter (\<lambda>tm. fst (snd tm) \<le> t) (timers w);
          rest = filter (\<lambda>tm. \<not> fst (snd tm) \<le> t) (timers w)
      in (fold fireTimer due (w\<lparr>timers := rest\<rparr>))\<lparr>now := t\<rparr>)"

text \<open>
  The events the component reacts to. A submit event only reaches \<^verbatim>\<open>handleSubmit\<close>
  while the submit button is enabled (a disabled default button blocks both the click
  and the implicit submission of the form). \<open>UploadSettled\<close> resumes the oldest upload
  call in flight. Each handler, and each resumed invocation, runs to its end (or to its
  \<^verbatim>\<open>await\<close>) without interruption and reads the state of the last render; the state
  it sets is rendered and committed before the next event, and the commit runs the effect
  cleanup. Picking a file and removing the preview are possible in every state, also
  during an upload.
\<close>

datatype event =
    TextChange jsstring
  | FileChange "jsfile option"
  | RemoveClick
  | Submit
  | UploadSettled upload_outcome
  | Elapse nat

fun step :: "props \<Rightarrow> event \<Rightarrow> state \<times> env \<Rightarrow> state \<times> env" where
  "step p (TextChange v) (s, w) = commit s (handleTextChange p v (s, w))"
| "step p (FileChange fo) (s, w) = commit s (handleImageSelect fo (s, w))"
| "step p RemoveClick (s, w) = commit s (handleRemoveImage (s, w))"
| "step p Submit (s, w) =
     (if submitDisabled s then (s, w) else commit s (handleSubmit p (s, w)))"
| "step p (UploadSettled out) (s, w) =
     (case uploads w of
        [] \<Rightarrow> (s, w)
      | pd # rest \<Rightarrow> commit s (afterUpload pd out (s, w\<lparr>uploads := rest\<rparr>)))"
| "step p (Elapse d) (s, w) = (s, elapse d w)"

definition run :: "props \<Rightarrow> event list \<Rightarrow> state \<times> env \<Rightarrow> state \<times> env" where
  "run p evs c = fold (step p) evs c"

text \<open>The component as mounted: empty draft, the file input attached and empty.\<close>

definition initial :: "state \<times> env" where
  "initial =
     (\<lparr>text_s = [], uploading = False, selectedImage = None, selectedFile = None,
       fileInputRef = Some [], typingTimeoutRef = None\<rparr>,
      \<lparr>now = 0, timers = [], timerCount = 0, liveURLs = [], nextURL = 0, uploads = [],
       log = []\<rparr>)"

subsection \<open>What an observer sees\<close>

text \<open>
  The payloads handed to \<^verbatim>\<open>onSendMessage\<close>, the messages alerted, and the times
  of the typing notifications, each in the order of the log.
\<close>

fun sentOf :: "nat \<times> effect \<Rightarrow> messageData list" where
  "sentOf (t, OnSendMessage m) = [m]"
| "sentOf _ = []"

definition sent :: "env \<Rightarrow> messageData list" where
  "sent w = concat (map sentOf (log w))"

fun alertOf :: "nat \<times> effect \<Rightarrow> jsstring list" where
  "alertOf (t, Alert m) = [m]"
| "alertOf _ = []"

definition alerts :: "env \<Rightarrow> jsstring list" where
  "alerts w = concat (map alertOf (log w))"

definition starts :: "env \<Rightarrow> nat list" where
  "starts w = map fst (filter (\<lambda>x. snd x = OnTyping) (log w))"

definition stops :: "env \<Rightarrow> nat list" where
  "stops w = map fst (filter (\<lambda>x. snd x = OnStopTyping) (log w))"

text \<open>The draft: text, selected file and preview.\<close>

definition draft :: "state \<Rightarrow> jsstring \<times> jsfile option \<times> nat option" where
  "draft s = (text_s s, selectedFile s, selectedImage s)"

text \<open>
  A burst of keystrokes: each entry is the time since the previous event and the new
  value of the text input. \<open>keyTimes t ks\<close> are the times of the keystrokes of a burst
  that starts at time \<open>t\<close>.
\<close>

fun keystrokes :: "(nat \<times> jsstring) list \<Rightarrow> event list" where
  "keystrokes [] = []"
| "keystrokes ((d, v) # ks) = Elapse d # TextChange v # keystrokes ks"

fun keyTimes :: "nat \<Rightarrow> (nat \<times> jsstring) list \<Rightarrow> nat list" where
  "keyTimes t [] = []"
| "keyTimes t ((d, v) # ks) = (t + d) # keyTimes (t + d) ks"

text \<open>
  The texts of the draft at the submit events of a run that reached
  \<^verbatim>\<open>handleSubmit\<close>, in the order of the events.
\<close>

fun submitted :: "props \<Rightarrow> event list \<Rightarrow> state \<times> env \<Rightarrow> jsstring list" where
  "submitted p [] c = []"
| "submitted p (e # evs) c =
     (if e = Submit \<and> \<not> submitDisabled (fst c) then [text_s (fst c)] else []) @
     submitted p evs (step p e c)"

text \<open>A text without white space at either end.\<close>

definition noOuterWhiteSpace :: "jsstring \<Rightarrow> bool" where
  "noOuterWhiteSpace t =
     (case t of [] \<Rightarrow> True | c # _ \<Rightarrow> \<not> isWhiteSpace c \<and> \<not> isWhiteSpace (last t))"

text \<open>
  The failed uploads in the words of the specification: the call rejects, or the result
  lacks the success flag or \<^verbatim>\<open>data.url\<close>. \<open>shownError\<close> is the message the
  specification asks for: of a rejection the nested message of the service, else the
  error's own message, else the generic one; of a malformed result its message, else
  the generic one.
\<close>

fun uploadFails :: "upload_outcome \<Rightarrow> bool" where
  "uploadFails (Rejected e) = True"
| "uploadFails (Resolved r) =
     (\<not> success r \<or> data r = None \<or> data r = Some None \<or> data r = Some (Some []))"

fun shownError :: "upload_outcome \<Rightarrow> jsstring" where
  "shownError (Rejected e) =
     (case response_data_message e of
        Some (c # cs) \<Rightarrow> c # cs
      | _ \<Rightarrow>
        (case error_message e of
           Some (c # cs) \<Rightarrow> c # cs
         | _ \<Rightarrow> js ''Failed to upload image. Please check your Cloudinary configuration in the server .env file.''))"
| "shownError (Resolved r) =
     (case message r of Some (c # cs) \<Rightarrow> c # cs | _ \<Rightarrow> js ''Upload failed'')"

subsection \<open>Invariants of the event loop\<close>

text \<open>
  \<open>uploading\<close> is set exactly while an upload call is in flight, and at most one is.
\<close>

definition upInv :: "state \<times> env \<Rightarrow> bool" where
  "upInv c \<longleftrightarrow> uploading (fst c) = (uploads (snd c) \<noteq> []) \<and> length (uploads (snd c)) \<le> 1"

text \<open>
  Every payload sent so far has a media URL exactly when its media type is
  \<^verbatim>\<open>'image'\<close>, and a text that \<^verbatim>\<open>trim\<close> leaves as it is.
\<close>

definition goodPayload :: "messageData \<Rightarrow> bool" where
  "goodPayload m \<longleftrightarrow>
     (mediaURL m \<noteq> []) = (mediaType m = js ''image'') \<and> noOuterWhiteSpace (text_m m) \<and>
     trim (text_m m) = text_m m"

definition sentInv :: "state \<times> env \<Rightarrow> bool" where
  "sentInv c \<longleftrightarrow> list_all goodPayload (sent (snd c))"

text \<open>
  The selected file and the preview come and go together, and the object URLs alive are
  exactly the preview's.
\<close>

definition urlInv :: "state \<times> env \<Rightarrow> bool" where
  "urlInv c \<longleftrightarrow>
     (case selectedImage (fst c) of
        None \<Rightarrow> selectedFile (fst c) = None \<and> liveURLs (snd c) = []
      | Some u \<Rightarrow>
          selectedFile (fst c) \<noteq> None \<and> liveURLs (snd c) = [u] \<and> u < nextURL (snd c))"

text \<open>A file that passes both checks of \<^verbatim>\<open>handleImageSelect\<close> (lines 147 and 156).\<close>

definition accepted :: "jsfile \<Rightarrow> bool" where
  "accepted f \<longleftrightarrow> file_size f \<le> 5 * 1024 * 1024 \<and> startsWith (file_type f) (js ''image/'')"

text \<open>
  During a burst of keystrokes exactly one timer is pending: the one the last keystroke
  set, which the ref holds, due one second after that keystroke.
\<close>

definition armed :: "state \<times> env \<Rightarrow> bool" where
  "armed c \<longleftrightarrow>
     timerCount (snd c) \<noteq> 0 \<and> typingTimeoutRef (fst c) = Some (timerCount (snd c)) \<and>
     timers (snd c) = [(timerCount (snd c), now (snd c) + 1000, True)]"

text \<open>
  The text of every payload sent is the trimmed text of the draft at one of those submit
  events, and so is the text every suspended send holds.
\<close>

definition histInv :: "props \<Rightarrow> event list \<Rightarrow> bool" where
  "histInv p evs \<longleftrightarrow>
     list_all (\<lambda>m. text_m m \<in> trim ` set (submitted p evs initial))
       (sent (snd (run p evs initial))) \<and>
     list_all (\<lambda>pd. pd_messageText pd \<in> set (submitted p evs initial))
       (uploads (snd (run p evs initial)))"

text \<open>Example values.\<close>

definition exampleProps :: props where
  "exampleProps =
     \<lparr>chatId_p = js ''chat1'', receiverId_p = js ''user2'', onSendMessage = True,
       onTyping = True, onStopTyping = True\<rparr>"

definition fileA :: jsfile where
  "fileA = \<lparr>file_name = js ''a.png'', file_size = 1000, file_type = js ''image/png''\<rparr>"

definition fileB :: jsfile where
  "fileB = \<lparr>file_name = js ''b.jpg'', file_size = 2000, file_type = js ''image/jpeg''\<rparr>"

definition bigFile :: jsfile where
  "bigFile =
     \<lparr>file_name = js ''big.png'', file_size = 5 * 1024 * 1024 + 1, file_type = js ''image/png''\<rparr>"

definition textFile :: jsfile where
  "textFile = \<lparr>file_name = js ''notes.txt'', file_size = 10, file_type = js ''text/plain''\<rparr>"

definition exampleState :: state where
  "exampleState =
     \<lparr>text_s = js '' see this '', uploading = False, selectedImage = Some 0,
       selectedFile = Some fileA, fileInputRef = Some (js ''C:/fakepath/a.png''),
       typingTimeoutRef = None\<rparr>"

definition exampleResponse :: uploadResponse where
  "exampleResponse =
     \<lparr>success = True, data = Some (Some (js ''http://x/y.png'')), message = None\<rparr>"

definition exampleError :: uploadError where
  "exampleError =
     \<lparr>response_data_message = Some (js ''Quota exceeded''),
       error_message = Some (js ''Request failed with status code 500'')\<rparr>"

definition exampleKeys :: "(nat \<times> jsstring) list" where
  "exampleKeys = [(300, js ''hi''), (999, js ''hi!'')]"

definition exampleRun :: "event list" where
  "exampleRun =
     [TextChange (js '' see this ''), FileChange (Some fileA), Submit,
      UploadSettled (Resolved exampleResponse)]"

definition pendingSend :: "state \<times> env" where
  "pendingSend =
     run exampleProps [TextChange (js '' see this ''), FileChange (Some fileA), Submit] initial"

definition textPayload :: messageData where
  "textPayload =
     \<lparr>chatId = js ''chat1'', receiverId = js ''user2'', text_m = js ''hello'',
       mediaURL = [], mediaType = []\<rparr>"

definition imagePayload :: messageData where
  "imagePayload =
     \<lparr>chatId = js ''chat1'', receiverId = js ''user2'', text_m = js ''see this'',
       mediaURL = js ''http://x/y.png'', mediaType = js ''image''\<rparr>"

section \<open>Basic facts\<close>

lemma sent_emit: "sent (emit e w) = sent w @ sentOf (now w, e)"
  by (simp add: sent_def emit_def)

lemma alerts_emit: "alerts (emit e w) = alerts w @ alertOf (now w, e)"
  by (simp add: alerts_def emit_def)

lemma emit_fields:
  "now (emit e w) = now w" "timers (emit e w) = timers w" "timerCount (emit e w) = timerCount w"
  "liveURLs (emit e w) = liveURLs w" "nextURL (emit e w) = nextURL w" "uploads (emit e w) = uploads w"
  by (simp_all add: emit_def)

lemma resetFileInput_fields:
  "text_s (resetFileInput s) = text_s s" "uploading (resetFileInput s) = uploading s"
  "selectedImage (resetFileInput s) = selectedImage s" "selectedFile (resetFileInput s) = selectedFile s"
  "typingTimeoutRef (resetFileInput s) = typingTimeoutRef s"
  "fileInputRef (resetFileInput s) = (case fileInputRef s of None \<Rightarrow> None | Some v \<Rightarrow> Some [])"
  by (simp_all add: resetFileInput_def split: option.splits)

lemma all_dropWhile_iff: "(\<forall>x\<in>set (dropWhile P xs). P x) \<longleftrightarrow> (\<forall>x\<in>set xs. P x)"
proof
  assume a: "\<forall>x\<in>set (dropWhile P xs). P x"
  have "dropWhile P xs = []"
  proof (rule ccontr)
    assume n: "dropWhile P xs \<noteq> []"
    then have "\<not> P (hd (dropWhile P xs))" by (rule hd_dropWhile)
    moreover have "hd (dropWhile P xs) \<in> set (dropWhile P xs)" using n by simp
    ultimately show False using a by blast
  qed
  then show "\<forall>x\<in>set xs. P x" by (simp add: dropWhile_eq_Nil_conv)
next
  assume "\<forall>x\<in>set xs. P x"
  then show "\<forall>x\<in>set (dropWhile P xs). P x" by (blast dest: set_dropWhileD)
qed

lemma last_dropWhile: "dropWhile P xs \<noteq> [] \<Longrightarrow> last (dropWhile P xs) = last xs"
  by (induction xs) (auto split: if_splits)

lemma trim_empty_iff: "trim t = [] \<longleftrightarrow> (\<forall>c\<in>set t. isWhiteSpace c)"
  by (simp add: trim_def dropWhile_eq_Nil_conv all_dropWhile_iff)

lemma noOuterWhiteSpace_trim: "noOuterWhiteSpace (trim t)"
proof (cases "trim t")
  case Nil
  then show ?thesis by (simp add: noOuterWhiteSpace_def)
next
  case (Cons c cs)
  let ?a = "dropWhile isWhiteSpace t"
  let ?b = "dropWhile isWhiteSpace (rev ?a)"
  have b: "?b \<noteq> []" using Cons by (simp add: trim_def)
  then have hb: "\<not> isWhiteSpace (hd ?b)" by (rule hd_dropWhile)
  have lastt: "last (trim t) = hd ?b" using b by (simp add: trim_def last_rev)
  have a: "?a \<noteq> []"
  proof
    assume "?a = []"
    then have "?b = []" by (simp only: rev.simps dropWhile.simps)
    with b show False by contradiction
  qed
  then have ha: "\<not> isWhiteSpace (hd ?a)" by (rule hd_dropWhile)
  have "hd (trim t) = last ?b" using b by (simp add: trim_def hd_rev)
  also have "\<dots> = last (rev ?a)" using b by (rule last_dropWhile)
  also have "\<dots> = hd ?a" using a by (simp add: last_rev)
  finally have hdt: "hd (trim t) = hd ?a" .
  have "hd (trim t) = c" by (simp only: Cons list.sel)
  with hdt ha have c: "\<not> isWhiteSpace c" by metis
  from lastt hb have l: "\<not> isWhiteSpace (last (trim t))" by metis
  have "noOuterWhiteSpace (c # cs)"
    using c l unfolding Cons by (simp only: noOuterWhiteSpace_def list.case simp_thms)
  then show ?thesis by (simp only: Cons)
qed

lemma sendTail_delivers:
  assumes "onSendMessage p" "trim t \<noteq> [] \<or> mURL \<noteq> []"
  shows "sendTail p t mURL mType (s, w) =
     (resetFileInput (s\<lparr>text_s := [], selectedImage := None, selectedFile := None\<rparr>),
      emit (OnSendMessage \<lparr>chatId = chatId_p p, receiverId = receiverId_p p,
              text_m = trim t, mediaURL = mURL, mediaType = mType\<rparr>) w)"
  using assms by (auto simp: sendTail_def Let_def)

lemma tryUpload_success:
  "success r \<Longrightarrow> data r = Some (Some url) \<Longrightarrow> url \<noteq> [] \<Longrightarrow> tryUpload (Resolved r) = Inr url"
  by (simp add: tryUpload_def)

lemma js_Cons_ne: "js (c # cs) \<noteq> []"
  by (simp add: js_def)

lemma errorMessage_Rejected: "errorMessage e = shownError (Rejected e)"
  by (cases "response_data_message e"; cases "error_message e")
     (auto simp: errorMessage_def orElse_def truthy_def split: list.splits)

lemma tryUpload_malformed:
  assumes "uploadFails (Resolved r)"
  shows "tryUpload (Resolved r) =
           Inl \<lparr>response_data_message = None,
                error_message = orElse (message r) (Some (js ''Upload failed''))\<rparr>"
  using assms by (auto simp: tryUpload_def split: option.splits)

lemma errorMessage_malformed:
  "errorMessage \<lparr>response_data_message = None,
                  error_message = orElse (message r) (Some (js ''Upload failed''))\<rparr> =
   shownError (Resolved r)"
  by (cases "message r")
     (auto simp: errorMessage_def orElse_def truthy_def js_Cons_ne split: list.splits)

lemma tryUpload_fails:
  assumes "uploadFails out"
  shows "\<exists>e. tryUpload out = Inl e \<and> errorMessage e = shownError out"
proof (cases out)
  case (Rejected e)
  then show ?thesis by (simp add: tryUpload_def errorMessage_Rejected)
next
  case (Resolved r)
  with assms have "uploadFails (Resolved r)" by simp
  then show ?thesis
    unfolding Resolved using tryUpload_malformed errorMessage_malformed by blast
qed

section \<open>Frame lemmas and the upload invariant\<close>

lemma obs_update:
  "sent (w\<lparr>now := x0\<rparr>) = sent w"
  "sent (w\<lparr>timers := x1\<rparr>) = sent w"
  "sent (w\<lparr>timerCount := x2\<rparr>) = sent w"
  "sent (w\<lparr>liveURLs := x3\<rparr>) = sent w"
  "sent (w\<lparr>nextURL := x4\<rparr>) = sent w"
  "sent (w\<lparr>uploads := x5\<rparr>) = sent w"
  "alerts (w\<lparr>now := x0\<rparr>) = alerts w"
  "alerts (w\<lparr>timers := x1\<rparr>) = alerts w"
  "alerts (w\<lparr>timerCount := x2\<rparr>) = alerts w"
  "alerts (w\<lparr>liveURLs := x3\<rparr>) = alerts w"
  "alerts (w\<lparr>nextURL := x4\<rparr>) = alerts w"
  "alerts (w\<lparr>uploads := x5\<rparr>) = alerts w"
  "starts (w\<lparr>now := x0\<rparr>) = starts w"
  "starts (w\<lparr>timers := x1\<rparr>) = starts w"
  "starts (w\<lparr>timerCount := x2\<rparr>) = starts w"
  "starts (w\<lparr>liveURLs := x3\<rparr>) = starts w"
  "starts (w\<lparr>nextURL := x4\<rparr>) = starts w"
  "starts (w\<lparr>uploads := x5\<rparr>) = starts w"
  "stops (w\<lparr>now := x0\<rparr>) = stops w"
  "stops (w\<lparr>timers := x1\<rparr>) = stops w"
  "stops (w\<lparr>timerCount := x2\<rparr>) = stops w"
  "stops (w\<lparr>liveURLs := x3\<rparr>) = stops w"
  "stops (w\<lparr>nextURL := x4\<rparr>) = stops w"
  "stops (w\<lparr>uploads := x5\<rparr>) = stops w"
  by (simp_all add: sent_def alerts_def starts_def stops_def)

lemma commit_frame:
  "fst (commit old c) = fst c" "uploads (snd (commit old c)) = uploads (snd c)"
  "sent (snd (commit old c)) = sent (snd c)" "timers (snd (commit old c)) = timers (snd c)"
  "now (snd (commit old c)) = now (snd c)" "timerCount (snd (commit old c)) = timerCount (snd c)"
  "alerts (snd (commit old c)) = alerts (snd c)"
  by (simp_all add: split_beta commit_def cleanup_def revokeObjectURL_def sent_emit alerts_emit
        emit_fields obs_update split: option.splits)

lemma handleTextChange_frame:
  "uploading (fst (handleTextChange p v c)) = uploading (fst c)"
  "uploads (snd (handleTextChange p v c)) = uploads (snd c)"
  "sent (snd (handleTextChange p v c)) = sent (snd c)"
  "selectedImage (fst (handleTextChange p v c)) = selectedImage (fst c)"
  "selectedFile (fst (handleTextChange p v c)) = selectedFile (fst c)"
  "liveURLs (snd (handleTextChange p v c)) = liveURLs (snd c)"
  "nextURL (snd (handleTextChange p v c)) = nextURL (snd c)"
  by (simp_all add: split_beta handleTextChange_def setTimeout_def clearTimeout_def emit_def sent_def Let_def
        split: option.splits)

lemma handleImageSelect_frame:
  "uploading (fst (handleImageSelect fo c)) = uploading (fst c)"
  "uploads (snd (handleImageSelect fo c)) = uploads (snd c)"
  "sent (snd (handleImageSelect fo c)) = sent (snd c)"
  by (simp_all add: split_beta handleImageSelect_def createObjectURL_def alert_def emit_def sent_def
        resetFileInput_fields Let_def split: option.splits)

lemma handleRemoveImage_frame:
  "uploading (fst (handleRemoveImage c)) = uploading (fst c)"
  "uploads (snd (handleRemoveImage c)) = uploads (snd c)"
  "sent (snd (handleRemoveImage c)) = sent (snd c)"
  by (simp_all add: split_beta handleRemoveImage_def revokeObjectURL_def emit_def sent_def
        resetFileInput_fields Let_def split: option.splits)

lemma sendTail_frame:
  "uploading (fst (sendTail p t u ty c)) = uploading (fst c)"
  "uploads (snd (sendTail p t u ty c)) = uploads (snd c)"
  "liveURLs (snd (sendTail p t u ty c)) = liveURLs (snd c)"
  "nextURL (snd (sendTail p t u ty c)) = nextURL (snd c)"
  by (simp_all add: split_beta sendTail_def emit_fields resetFileInput_fields Let_def)

lemma fireTimer_frame:
  "uploads (fireTimer t w) = uploads w" "sent (fireTimer t w) = sent w"
  "liveURLs (fireTimer t w) = liveURLs w" "nextURL (fireTimer t w) = nextURL w"
  "timers (fireTimer t w) = timers w"
  by (simp_all add: fireTimer_def emit_def sent_def Let_def)

lemma fold_fireTimer_frame:
  "uploads (fold fireTimer ts w) = uploads w \<and> sent (fold fireTimer ts w) = sent w \<and>
   liveURLs (fold fireTimer ts w) = liveURLs w \<and> nextURL (fold fireTimer ts w) = nextURL w \<and>
   timers (fold fireTimer ts w) = timers w"
  by (induction ts arbitrary: w) (simp_all add: fireTimer_frame)

lemma elapse_frame:
  "uploads (elapse d w) = uploads w" "sent (elapse d w) = sent w"
  "liveURLs (elapse d w) = liveURLs w" "nextURL (elapse d w) = nextURL w"
  by (simp_all add: elapse_def Let_def fold_fireTimer_frame obs_update)

lemma handleSend_None:
  "selectedFile s = None \<Longrightarrow> handleSend p t u ty (s, w) = sendTail p t u ty (s, w)"
  by (simp add: handleSend_def)

lemma handleSend_Some:
  "selectedFile s = Some f \<Longrightarrow>
   handleSend p t [] ty (s, w) =
     (s\<lparr>uploading := True\<rparr>,
      emit (UploadImage f)
        (w\<lparr>uploads := uploads w @
           [\<lparr>pd_props = p, pd_file = f, pd_messageText = t, pd_mediaType = ty\<rparr>]\<rparr>))"
  by (simp add: handleSend_def)

lemma afterUpload_frame:
  "\<not> uploading (fst (afterUpload pd out c))"
  "uploads (snd (afterUpload pd out c)) = uploads (snd c)"
proof -
  obtain s w where c: "c = (s, w)" by (cases c)
  show "\<not> uploading (fst (afterUpload pd out c))"
    by (cases "tryUpload out") (simp_all add: c afterUpload_def sendTail_frame)
  show "uploads (snd (afterUpload pd out c)) = uploads (snd c)"
    by (cases "tryUpload out") (simp_all add: c afterUpload_def sendTail_frame alert_def emit_fields)
qed

lemma upInv_step: "upInv c \<Longrightarrow> upInv (step p e c)"
proof -
  assume i: "upInv c"
  obtain s w where c: "c = (s, w)" by (cases c)
  from i c have u: "uploading s = (uploads w \<noteq> [])" and l: "length (uploads w) \<le> 1"
    by (simp_all add: upInv_def)
  show ?thesis
  proof (cases e)
    case (TextChange v)
    with u l show ?thesis by (simp add: c upInv_def commit_frame handleTextChange_frame)
  next
    case (FileChange fo)
    with u l show ?thesis by (simp add: c upInv_def commit_frame handleImageSelect_frame)
  next
    case RemoveClick
    with u l show ?thesis by (simp add: c upInv_def commit_frame handleRemoveImage_frame)
  next
    case Submit
    show ?thesis
    proof (cases "submitDisabled s")
      case True
      with i show ?thesis by (simp add: c Submit)
    next
      case False
      then have n: "\<not> uploading s" by (simp add: submitDisabled_def)
      with u have e: "uploads w = []" by simp
      show ?thesis
      proof (cases "selectedFile s")
        case None
        with False n e show ?thesis
          by (simp add: c Submit upInv_def commit_frame handleSubmit_def handleSend_None
                sendTail_frame)
      next
        case (Some f)
        with False n e show ?thesis
          by (simp add: c Submit upInv_def commit_frame handleSubmit_def handleSend_Some
                emit_fields)
      qed
    qed
  next
    case (UploadSettled out)
    show ?thesis
    proof (cases "uploads w")
      case Nil
      with i show ?thesis by (simp add: c UploadSettled)
    next
      case (Cons pd rest)
      with l have "rest = []" by simp
      with Cons show ?thesis
        by (simp add: c UploadSettled upInv_def commit_frame afterUpload_frame)
    qed
  next
    case (Elapse d)
    with u l show ?thesis by (simp add: c upInv_def elapse_frame)
  qed
qed

lemma upInv_run: "upInv c \<Longrightarrow> upInv (run p evs c)"
proof (induction evs rule: rev_induct)
  case Nil
  then show ?case by (simp add: run_def)
next
  case (snoc e evs)
  then have "upInv (step p e (run p evs c))" by (simp only: upInv_step)
  then show ?case by (simp add: run_def)
qed

lemma upInv_initial: "upInv initial"
  by (simp add: upInv_def initial_def)

lemma upInv_reach: "upInv (run p evs initial)"
  by (rule upInv_run) (rule upInv_initial)

lemma example_upload_started:
  "run exampleProps [FileChange (Some fileA), Submit] initial =
     (\<lparr>text_s = [], uploading = True, selectedImage = Some 0, selectedFile = Some fileA,
       fileInputRef = Some [], typingTimeoutRef = None\<rparr>,
      \<lparr>now = 0, timers = [], timerCount = 0, liveURLs = [0], nextURL = 1,
       uploads = [\<lparr>pd_props = exampleProps, pd_file = fileA, pd_messageText = [],
                   pd_mediaType = []\<rparr>],
       log = [(0, CreateObjectURL fileA 0), (0, UploadImage fileA)]\<rparr>)"
  by (simp add: run_def initial_def handleImageSelect_def fileA_def startsWith_def js_def
        createObjectURL_def emit_def commit_def cleanup_def submitDisabled_def handleSubmit_def
        handleSend_def)

section \<open>The payload invariant\<close>

lemma dropWhile_id: "xs \<noteq> [] \<Longrightarrow> \<not> P (hd xs) \<Longrightarrow> dropWhile P xs = xs"
  by (cases xs) simp_all

lemma trim_fixed: 
  assumes "noOuterWhiteSpace t" shows "trim t = t"
proof (cases t)
  case Nil
  then show ?thesis by (simp add: trim_def)
next
  case (Cons c cs)
  with assms have a: "\<not> isWhiteSpace (hd t)" and b: "\<not> isWhiteSpace (last t)" and n: "t \<noteq> []"
    by (simp_all add: noOuterWhiteSpace_def)
  from n a have 1: "dropWhile isWhiteSpace t = t" by (rule dropWhile_id)
  from n b have "\<not> isWhiteSpace (hd (rev t))" by (simp add: hd_rev)
  with n have 2: "dropWhile isWhiteSpace (rev t) = rev t" by (simp add: dropWhile_id)
  show ?thesis by (simp only: trim_def 1 2 rev_rev_ident)
qed

lemma trim_trim: "trim (trim t) = trim t"
  by (rule trim_fixed) (rule noOuterWhiteSpace_trim)

lemma tryUpload_Inr: "tryUpload out = Inr url \<Longrightarrow> url \<noteq> []"
  by (auto simp: tryUpload_def split: upload_outcome.splits option.splits if_splits)

lemma sendTail_sent:
  "sent (snd (sendTail p t u ty (s, w))) = sent w \<or>
   sent (snd (sendTail p t u ty (s, w))) =
     sent w @ [\<lparr>chatId = chatId_p p, receiverId = receiverId_p p, text_m = trim t,
                 mediaURL = u, mediaType = ty\<rparr>]"
  by (simp add: sendTail_def Let_def sent_emit)

lemma sentInv_sendTail:
  assumes "sentInv (s, w)" "(u \<noteq> []) = (ty = js ''image'')"
  shows "sentInv (sendTail p t u ty (s, w))"
  using sendTail_sent [of p t u ty s w] assms
  by (auto simp: sentInv_def goodPayload_def noOuterWhiteSpace_trim trim_trim)

lemma sentInv_same: "sent (snd c') = sent (snd c) \<Longrightarrow> sentInv c \<Longrightarrow> sentInv c'"
  by (simp add: sentInv_def)

lemma sentInv_commit: "sentInv c \<Longrightarrow> sentInv (commit old c)"
  by (simp add: sentInv_def commit_frame)

lemma sentInv_step: "sentInv c \<Longrightarrow> sentInv (step p e c)"
proof -
  assume i: "sentInv c"
  obtain s w where c: "c = (s, w)" by (cases c)
  show ?thesis
  proof (cases e)
    case (TextChange v)
    with i show ?thesis by (simp add: c sentInv_def commit_frame handleTextChange_frame)
  next
    case (FileChange fo)
    with i show ?thesis by (simp add: c sentInv_def commit_frame handleImageSelect_frame)
  next
    case RemoveClick
    with i show ?thesis by (simp add: c sentInv_def commit_frame handleRemoveImage_frame)
  next
    case Submit
    show ?thesis
    proof (cases "submitDisabled s")
      case True
      with i show ?thesis by (simp add: c Submit)
    next
      case False
      show ?thesis
      proof (cases "selectedFile s")
        case None
        have "sentInv (sendTail p (text_s s) [] [] (s, w))"
          using i c by (intro sentInv_sendTail) (simp_all add: js_Cons_ne [symmetric])
        with False None show ?thesis
          by (simp add: c Submit handleSubmit_def handleSend_None sentInv_commit)
      next
        case (Some f)
        with False i show ?thesis
          by (simp add: c Submit handleSubmit_def handleSend_Some sentInv_def commit_frame
                sent_emit obs_update)
      qed
    qed
  next
    case (UploadSettled out)
    show ?thesis
    proof (cases "uploads w")
      case Nil
      with i show ?thesis by (simp add: c UploadSettled)
    next
      case (Cons pd rest)
      have w: "sentInv (s\<lparr>uploading := False\<rparr>, w\<lparr>uploads := rest\<rparr>)"
        using i c by (simp add: sentInv_def obs_update)
      have "sentInv (afterUpload pd out (s, w\<lparr>uploads := rest\<rparr>))"
      proof (cases "tryUpload out")
        case (Inl e)
        with i c show ?thesis
          by (simp add: afterUpload_def sentInv_def alert_def sent_emit obs_update)
      next
        case (Inr url)
        then have "url \<noteq> []" by (rule tryUpload_Inr)
        then have "sentInv (sendTail (pd_props pd) (pd_messageText pd) url (js ''image'')
                     (s\<lparr>uploading := False\<rparr>, w\<lparr>uploads := rest\<rparr>))"
          using w by (intro sentInv_sendTail) simp_all
        with Inr show ?thesis by (simp add: afterUpload_def)
      qed
      with Cons show ?thesis by (simp add: c UploadSettled sentInv_commit)
    qed
  next
    case (Elapse d)
    with i show ?thesis by (simp add: c sentInv_def elapse_frame)
  qed
qed

lemma sentInv_run: "sentInv c \<Longrightarrow> sentInv (run p evs c)"
proof (induction evs rule: rev_induct)
  case Nil
  then show ?case by (simp add: run_def)
next
  case (snoc e evs)
  then have "sentInv (step p e (run p evs c))" by (simp only: sentInv_step)
  then show ?case by (simp add: run_def)
qed

lemma sentInv_initial: "sentInv initial"
  by (simp add: sentInv_def initial_def sent_def)

lemma example_text_sent:
  "sent (snd (run exampleProps [TextChange (js '' hello ''), Submit] initial)) =
     [\<lparr>chatId = js ''chat1'', receiverId = js ''user2'', text_m = js ''hello'',
       mediaURL = [], mediaType = []\<rparr>]"
  by (simp add: run_def initial_def handleTextChange_def setTimeout_def emit_def commit_def
        submitDisabled_def handleSubmit_def handleSend_def sendTail_def sent_def
        exampleProps_def trim_def js_def isWhiteSpace_def resetFileInput_def)

section \<open>The object URL invariant\<close>

lemma commit_same: "selectedImage old = selectedImage (fst c) \<Longrightarrow> commit old c = c"
  by (cases c) (simp add: commit_def)

lemma urlInv_same:
  assumes "urlInv c" "selectedImage (fst c') = selectedImage (fst c)"
    "selectedFile (fst c') = selectedFile (fst c)" "liveURLs (snd c') = liveURLs (snd c)"
    "nextURL (snd c') = nextURL (snd c)"
  shows "urlInv c'"
  using assms by (simp add: urlInv_def split: option.splits)

lemma urlInv_cleared:
  assumes "urlInv (s, w)" "selectedImage s' = None" "selectedFile s' = None"
    "liveURLs w' = liveURLs w" "nextURL w' = nextURL w"
  shows "urlInv (commit s (s', w'))"
proof (cases "selectedImage s")
  case None
  with assms show ?thesis by (simp add: urlInv_def commit_def)
next
  case (Some u)
  with assms show ?thesis
    by (simp add: urlInv_def commit_def cleanup_def revokeObjectURL_def emit_fields)
qed

lemma sendTail_sends:
  "\<not> (trim t = [] \<and> u = []) \<Longrightarrow>
   sendTail p t u ty (s, w) =
     (resetFileInput (s\<lparr>text_s := [], selectedImage := None, selectedFile := None\<rparr>),
      if onSendMessage p
      then emit (OnSendMessage \<lparr>chatId = chatId_p p, receiverId = receiverId_p p,
                   text_m = trim t, mediaURL = u, mediaType = ty\<rparr>) w
      else w)"
  by (cases "trim t = []"; cases "u = []"; simp add: sendTail_def Let_def)

lemma urlInv_sendTail:
  assumes "urlInv (s, w)" "selectedImage s0 = selectedImage s" "selectedFile s0 = selectedFile s"
    "liveURLs w0 = liveURLs w" "nextURL w0 = nextURL w"
  shows "urlInv (commit s (sendTail p t u ty (s0, w0)))"
proof (cases "trim t = [] \<and> u = []")
  case True
  then have "sendTail p t u ty (s0, w0) = (s0, w0)" by (simp add: sendTail_def)
  moreover have "commit s (s0, w0) = (s0, w0)" using assms(2) by (simp add: commit_same)
  moreover have "urlInv (s0, w0)" by (rule urlInv_same [of "(s, w)"]) (use assms in simp_all)
  ultimately show ?thesis by simp
next
  case False
  show ?thesis
    unfolding sendTail_sends [OF False]
    using assms(2-5)
    by (intro urlInv_cleared [OF assms(1)]) (simp_all add: resetFileInput_fields emit_fields)
qed

lemma accept_step:
  assumes "urlInv (s, w)" "accepted f"
  shows "step p (FileChange (Some f)) (s, w) =
     (s\<lparr>selectedFile := Some f, selectedImage := Some (nextURL w)\<rparr>,
      w\<lparr>liveURLs := [nextURL w], nextURL := Suc (nextURL w),
        log := log w @ (now w, CreateObjectURL f (nextURL w)) #
                 (case selectedImage s of None \<Rightarrow> []
                  | Some u \<Rightarrow> [(now w, RevokeObjectURL u)])\<rparr>)"
proof (cases "selectedImage s")
  case None
  with assms show ?thesis
    by (simp add: urlInv_def accepted_def handleImageSelect_def createObjectURL_def emit_def
          commit_def cleanup_def)
next
  case (Some u)
  with assms have "u < nextURL w" "liveURLs w = [u]" by (simp_all add: urlInv_def)
  with Some assms show ?thesis
    by (simp add: accepted_def handleImageSelect_def createObjectURL_def emit_def
          commit_def cleanup_def revokeObjectURL_def)
qed

lemma reject_step:
  assumes "\<not> accepted f"
  shows "step p (FileChange (Some f)) (s, w) =
     (resetFileInput s,
      alert (if file_size f > 5 * 1024 * 1024 then js ''File size must be less than 5MB''
             else js ''Please select an image file'') w)"
proof (cases "file_size f > 5 * 1024 * 1024")
  case True
  then show ?thesis by (simp add: handleImageSelect_def commit_def resetFileInput_fields)
next
  case False
  with assms have "\<not> startsWith (file_type f) (js ''image/'')" by (simp add: accepted_def)
  with False show ?thesis by (simp add: handleImageSelect_def commit_def resetFileInput_fields)
qed

lemma remove_step:
  "step p RemoveClick (s, w) =
     (resetFileInput (s\<lparr>selectedImage := None, selectedFile := None\<rparr>),
      case selectedImage s of
        None \<Rightarrow> w
      | Some u \<Rightarrow> revokeObjectURL u (revokeObjectURL u w))"
  by (cases "selectedImage s")
     (simp_all add: handleRemoveImage_def commit_def cleanup_def resetFileInput_fields)

lemma urlInv_step: "urlInv c \<Longrightarrow> urlInv (step p e c)"
proof -
  assume i: "urlInv c"
  obtain s w where c: "c = (s, w)" by (cases c)
  show ?thesis
  proof (cases e)
    case (TextChange v)
    have "commit s (handleTextChange p v (s, w)) = handleTextChange p v (s, w)"
      by (rule commit_same) (simp add: handleTextChange_frame)
    moreover have "urlInv (handleTextChange p v (s, w))"
      by (rule urlInv_same [of "(s, w)"]) (use i c in \<open>simp_all add: handleTextChange_frame\<close>)
    ultimately show ?thesis by (simp add: c TextChange)
  next
    case (FileChange fo)
    show ?thesis
    proof (cases fo)
      case None
      with i show ?thesis by (simp add: c FileChange handleImageSelect_def commit_def)
    next
      case (Some f)
      show ?thesis
      proof (cases "accepted f")
        case True
        from i c have "urlInv (s, w)" by simp
        from accept_step [OF this True, of p] show ?thesis
          unfolding c FileChange Some by (simp only: urlInv_def) simp
      next
        case False
        show ?thesis
          unfolding c FileChange Some reject_step [OF False]
          by (rule urlInv_same [of "(s, w)"])
             (use i c in \<open>simp_all add: resetFileInput_fields alert_def emit_fields\<close>)
      qed
    qed
  next
    case RemoveClick
    show ?thesis
      unfolding c RemoveClick remove_step using i c
      by (cases "selectedImage s")
         (simp_all add: urlInv_def resetFileInput_fields revokeObjectURL_def emit_fields)
  next
    case Submit
    show ?thesis
    proof (cases "submitDisabled s")
      case True
      with i show ?thesis by (simp add: c Submit)
    next
      case False
      show ?thesis
      proof (cases "selectedFile s")
        case None
        have "urlInv (commit s (sendTail p (text_s s) [] [] (s, w)))"
          by (rule urlInv_sendTail [of s w]) (use i c in simp_all)
        with False None show ?thesis
          by (simp add: c Submit handleSubmit_def handleSend_None)
      next
        case (Some f)
        with False have st: "step p Submit (s, w) =
            (s\<lparr>uploading := True\<rparr>,
             emit (UploadImage f)
               (w\<lparr>uploads := uploads w @
                  [\<lparr>pd_props = p, pd_file = f, pd_messageText = text_s s,
                    pd_mediaType = []\<rparr>]\<rparr>))"
          by (simp add: handleSubmit_def handleSend_Some commit_def)
        show ?thesis
          unfolding c Submit st
          by (rule urlInv_same [of "(s, w)"]) (use i c in \<open>simp_all add: emit_fields\<close>)
      qed
    qed
  next
    case (UploadSettled out)
    show ?thesis
    proof (cases "uploads w")
      case Nil
      with i show ?thesis by (simp add: c UploadSettled)
    next
      case (Cons pd rest)
      have "urlInv (commit s (afterUpload pd out (s, w\<lparr>uploads := rest\<rparr>)))"
      proof (cases "tryUpload out")
        case (Inl e)
        then have eq: "commit s (afterUpload pd out (s, w\<lparr>uploads := rest\<rparr>)) =
            (s\<lparr>uploading := False\<rparr>,
             alert (errorMessage e) (emit (ConsoleError e) (w\<lparr>uploads := rest\<rparr>)))"
          by (simp add: afterUpload_def commit_def)
        show ?thesis
          unfolding eq
          by (rule urlInv_same [of "(s, w)"])
             (use i c in \<open>simp_all add: alert_def emit_fields\<close>)
      next
        case (Inr url)
        have "urlInv (commit s (sendTail (pd_props pd) (pd_messageText pd) url (js ''image'')
                     (s\<lparr>uploading := False\<rparr>, w\<lparr>uploads := rest\<rparr>)))"
          by (rule urlInv_sendTail [of s w]) (use i c in simp_all)
        with Inr show ?thesis by (simp add: afterUpload_def)
      qed
      with Cons show ?thesis by (simp add: c UploadSettled)
    qed
  next
    case (Elapse d)
    show ?thesis
      unfolding c Elapse step.simps
      by (rule urlInv_same [of "(s, w)"]) (use i c in \<open>simp_all add: elapse_frame\<close>)
  qed
qed

lemma urlInv_run: "urlInv c \<Longrightarrow> urlInv (run p evs c)"
proof (induction evs rule: rev_induct)
  case Nil
  then show ?case by (simp add: run_def)
next
  case (snoc e evs)
  then have "urlInv (step p e (run p evs c))" by (simp only: urlInv_step)
  then show ?case by (simp add: run_def)
qed

lemma urlInv_initial: "urlInv initial"
  by (simp add: urlInv_def initial_def)

lemma urlInv_reach: "urlInv (run p evs initial)"
  by (rule urlInv_run) (rule urlInv_initial)


lemma unmount_releases: "urlInv c \<Longrightarrow> liveURLs (unmount c) = []"
  by (cases c; cases "selectedImage (fst c)")
     (simp_all add: urlInv_def unmount_def cleanup_def revokeObjectURL_def emit_fields)

lemma urlInv_live:
  "urlInv c \<Longrightarrow>
   liveURLs (snd c) = (case selectedImage (fst c) of None \<Rightarrow> [] | Some u \<Rightarrow> [u]) \<and>
   (selectedImage (fst c) = None) = (selectedFile (fst c) = None)"
  by (cases "selectedImage (fst c)") (simp_all add: urlInv_def)

lemma example_select_A:
  "run exampleProps [FileChange (Some fileA)] initial =
     (\<lparr>text_s = [], uploading = False, selectedImage = Some 0, selectedFile = Some fileA,
       fileInputRef = Some [], typingTimeoutRef = None\<rparr>,
      \<lparr>now = 0, timers = [], timerCount = 0, liveURLs = [0], nextURL = 1, uploads = [],
       log = [(0, CreateObjectURL fileA 0)]\<rparr>)"
  by (simp add: run_def initial_def handleImageSelect_def fileA_def startsWith_def js_def
        createObjectURL_def emit_def commit_def cleanup_def)

lemma accepted_fileB: "accepted fileB"
  by (simp add: accepted_def fileB_def startsWith_def js_def)

lemma run_two: "run p [a, b] c = step p b (run p [a] c)"
  by (simp add: run_def)

section \<open>The typing timer\<close>

lemma starts_emit: "starts (emit e w) = starts w @ (if e = OnTyping then [now w] else [])"
  by (simp add: starts_def emit_def)

lemma stops_emit: "stops (emit e w) = stops w @ (if e = OnStopTyping then [now w] else [])"
  by (simp add: stops_def emit_def)

lemma textChange_step:
  assumes "timers w = [] \<or> (typingTimeoutRef s = Some i \<and> i \<noteq> 0 \<and> timers w = [(i, D, cb)])"
  shows "step p (TextChange v) (s, w) =
     (s\<lparr>text_s := v, typingTimeoutRef := Some (Suc (timerCount w))\<rparr>,
      (if onTyping p then emit OnTyping w else w)
        \<lparr>timers := [(Suc (timerCount w), now w + 1000, onStopTyping p)],
         timerCount := Suc (timerCount w)\<rparr>)"
  using assms
  by (cases "typingTimeoutRef s")
     (auto simp: handleTextChange_def setTimeout_def clearTimeout_def emit_def commit_def Let_def)

lemma elapse_idle: "timers w = [] \<Longrightarrow> elapse d w = w\<lparr>now := now w + d\<rparr>"
  by (simp add: elapse_def Let_def)

lemma elapse_early:
  "timers w = [(i, D, cb)] \<Longrightarrow> now w + d < D \<Longrightarrow> elapse d w = w\<lparr>now := now w + d\<rparr>"
  by (simp add: elapse_def Let_def)

lemma elapse_fires:
  "timers w = [(i, D, True)] \<Longrightarrow> now w \<le> D \<Longrightarrow> D \<le> now w + d \<Longrightarrow>
   elapse d w = w\<lparr>timers := [], now := now w + d, log := log w @ [(D, OnStopTyping)]\<rparr>"
  by (simp add: elapse_def Let_def fireTimer_def emit_def max_def)

lemma run_Cons: "run p (e # evs) c = run p evs (step p e c)"
  by (simp add: run_def)

lemma run_Nil: "run p [] c = c"
  by (simp add: run_def)

lemma run_append: "run p (xs @ ys) c = run p ys (run p xs c)"
  by (simp add: run_def)

lemma armed_key:
  assumes a: "armed (s, w)" and d: "d < 1000" and t: "onTyping p" "onStopTyping p"
  shows "armed (run p [Elapse d, TextChange v] (s, w)) \<and>
         text_s (fst (run p [Elapse d, TextChange v] (s, w))) = v \<and>
         now (snd (run p [Elapse d, TextChange v] (s, w))) = now w + d \<and>
         starts (snd (run p [Elapse d, TextChange v] (s, w))) = starts w @ [now w + d] \<and>
         stops (snd (run p [Elapse d, TextChange v] (s, w))) = stops w \<and>
         timerCount (snd (run p [Elapse d, TextChange v] (s, w))) = Suc (timerCount w)"
proof -
  from a have tw: "timers w = [(timerCount w, now w + 1000, True)]"
    and r: "typingTimeoutRef s = Some (timerCount w)" and n: "timerCount w \<noteq> 0"
    by (simp_all add: armed_def)
  from tw d have e: "elapse d w = w\<lparr>now := now w + d\<rparr>"
    by (intro elapse_early [of w "timerCount w" "now w + 1000" True]) simp_all
  have "timers (w\<lparr>now := now w + d\<rparr>) = [] \<or>
        (typingTimeoutRef s = Some (timerCount w) \<and> timerCount w \<noteq> 0 \<and>
         timers (w\<lparr>now := now w + d\<rparr>) = [(timerCount w, now w + 1000, True)])"
    using tw r n by simp
  from textChange_step [OF this, of p v]
  have "run p [Elapse d, TextChange v] (s, w) =
     (s\<lparr>text_s := v, typingTimeoutRef := Some (Suc (timerCount w))\<rparr>,
      (emit OnTyping (w\<lparr>now := now w + d\<rparr>))
        \<lparr>timers := [(Suc (timerCount w), now w + d + 1000, True)],
         timerCount := Suc (timerCount w)\<rparr>)"
    unfolding run_Cons run_Nil step.simps(6) e using t by simp
  then show ?thesis
    by (simp add: armed_def emit_fields obs_update starts_emit stops_emit)
qed

lemma burst:
  assumes t: "onTyping p" "onStopTyping p"
  shows "armed c \<Longrightarrow> list_all (\<lambda>k. fst k < 1000) ks \<Longrightarrow>
     armed (run p (keystrokes ks) c) \<and>
     text_s (fst (run p (keystrokes ks) c)) = (if ks = [] then text_s (fst c) else snd (last ks)) \<and>
     now (snd (run p (keystrokes ks) c)) = last (now (snd c) # keyTimes (now (snd c)) ks) \<and>
     starts (snd (run p (keystrokes ks) c)) = starts (snd c) @ keyTimes (now (snd c)) ks \<and>
     stops (snd (run p (keystrokes ks) c)) = stops (snd c) \<and>
     timerCount (snd (run p (keystrokes ks) c)) = timerCount (snd c) + length ks"
proof (induction ks arbitrary: c)
  case Nil
  then show ?case by (simp add: run_Nil)
next
  case (Cons k ks)
  obtain d v where k: "k = (d, v)" by (cases k)
  obtain s w where c: "c = (s, w)" by (cases c)
  let ?c1 = "run p [Elapse d, TextChange v] (s, w)"
  from Cons.prems k have d: "d < 1000" and rest: "list_all (\<lambda>k. fst k < 1000) ks" by simp_all
  from Cons.prems(1) c have "armed (s, w)" by simp
  note 1 = armed_key [OF this d t, of v]
  from 1 have a1: "armed ?c1" by blast
  note 2 = Cons.IH [OF a1 rest]
  have r: "run p (keystrokes (k # ks)) c = run p (keystrokes ks) ?c1"
    by (simp add: k c run_Cons run_Nil)
  show ?case
    unfolding r using 1 2 by (simp add: k c)
qed


lemma handleTextChange_obs:
  "text_s (fst (handleTextChange p v (s, w))) = v"
  "starts (snd (handleTextChange p v (s, w))) = starts w @ (if onTyping p then [now w] else [])"
  by (simp_all add: handleTextChange_def setTimeout_def clearTimeout_def Let_def starts_emit
        obs_update split: option.splits)

lemma first_key:
  assumes t: "onTyping p" "onStopTyping p" and e: "timers w = []"
  shows "armed (run p [Elapse d, TextChange v] (s, w)) \<and>
         text_s (fst (run p [Elapse d, TextChange v] (s, w))) = v \<and>
         now (snd (run p [Elapse d, TextChange v] (s, w))) = now w + d \<and>
         starts (snd (run p [Elapse d, TextChange v] (s, w))) = starts w @ [now w + d] \<and>
         stops (snd (run p [Elapse d, TextChange v] (s, w))) = stops w \<and>
         timerCount (snd (run p [Elapse d, TextChange v] (s, w))) = Suc (timerCount w)"
proof -
  from e have el: "elapse d w = w\<lparr>now := now w + d\<rparr>" by (rule elapse_idle)
  have "timers (w\<lparr>now := now w + d\<rparr>) = [] \<or>
        (typingTimeoutRef s = Some 0 \<and> (0::nat) \<noteq> 0 \<and>
         timers (w\<lparr>now := now w + d\<rparr>) = [(0, 0, True)])"
    using e by simp
  from textChange_step [OF this, of p v]
  have "run p [Elapse d, TextChange v] (s, w) =
     (s\<lparr>text_s := v, typingTimeoutRef := Some (Suc (timerCount w))\<rparr>,
      (emit OnTyping (w\<lparr>now := now w + d\<rparr>))
        \<lparr>timers := [(Suc (timerCount w), now w + d + 1000, True)],
         timerCount := Suc (timerCount w)\<rparr>)"
    unfolding run_Cons run_Nil step.simps(6) el using t by simp
  then show ?thesis
    by (simp add: armed_def emit_fields obs_update starts_emit stops_emit)
qed

section \<open>The submitted text\<close>

lemma submitted_snoc:
  "submitted p (evs @ [e]) c =
     submitted p evs c @
     (if e = Submit \<and> \<not> submitDisabled (fst (run p evs c)) then [text_s (fst (run p evs c))]
      else [])"
  by (induction evs arbitrary: c) (simp_all add: run_Nil run_Cons)

lemma submit_sent:
  "sent (snd (step p Submit (s, w))) =
     sent w @
     (if \<not> submitDisabled s \<and> selectedFile s = None \<and> onSendMessage p
      then [\<lparr>chatId = chatId_p p, receiverId = receiverId_p p, text_m = trim (text_s s),
              mediaURL = [], mediaType = []\<rparr>]
      else [])"
proof (cases "submitDisabled s")
  case True
  then show ?thesis by simp
next
  case False
  show ?thesis
  proof (cases "selectedFile s")
    case None
    with False have "\<not> (trim (text_s s) = [] \<and> ([]::jsstring) = [])"
      by (simp add: submitDisabled_def)
    note sendTail_sends [OF this, of p "[]" s w]
    with False None show ?thesis
      by (simp add: handleSubmit_def handleSend_None commit_frame sent_emit)
  next
    case (Some f)
    with False show ?thesis
      by (simp add: handleSubmit_def handleSend_Some commit_frame sent_emit obs_update)
  qed
qed

lemma submit_uploads:
  "uploads (snd (step p Submit (s, w))) =
     uploads w @
     (if submitDisabled s then []
      else case selectedFile s of
             None \<Rightarrow> []
           | Some f \<Rightarrow> [\<lparr>pd_props = p, pd_file = f, pd_messageText = text_s s,
                         pd_mediaType = []\<rparr>])"
proof (cases "submitDisabled s")
  case True
  then show ?thesis by simp
next
  case False
  then show ?thesis
    by (cases "selectedFile s")
       (simp_all add: handleSubmit_def handleSend_None handleSend_Some commit_frame
          sendTail_frame emit_fields)
qed

lemma settled_sent:
  assumes "uploads w = pd # rest"
  shows "sent (snd (step p (UploadSettled out) (s, w))) =
     sent w @
     (case tryUpload out of
        Inl e \<Rightarrow> []
      | Inr url \<Rightarrow>
          if onSendMessage (pd_props pd)
          then [\<lparr>chatId = chatId_p (pd_props pd), receiverId = receiverId_p (pd_props pd),
                  text_m = trim (pd_messageText pd), mediaURL = url,
                  mediaType = js ''image''\<rparr>]
          else [])"
proof (cases "tryUpload out")
  case (Inl e)
  with assms show ?thesis
    by (simp add: commit_frame afterUpload_def alert_def sent_emit obs_update)
next
  case (Inr url)
  then have "url \<noteq> []" by (rule tryUpload_Inr)
  then have "\<not> (trim (pd_messageText pd) = [] \<and> url = [])" by simp
  note sendTail_sends [OF this, of "pd_props pd" "js ''image''" "s\<lparr>uploading := False\<rparr>"
      "w\<lparr>uploads := rest\<rparr>"]
  with assms Inr show ?thesis
    by (simp add: commit_frame afterUpload_def sent_emit obs_update)
qed

lemma settled_uploads:
  "uploads (snd (step p (UploadSettled out) (s, w))) = tl (uploads w)"
  by (cases "uploads w") (simp_all add: commit_frame afterUpload_frame)

lemma other_sent:
  "sent (snd (step p (TextChange v) (s, w))) = sent w"
  "sent (snd (step p (FileChange fo) (s, w))) = sent w"
  "sent (snd (step p RemoveClick (s, w))) = sent w"
  "sent (snd (step p (Elapse d) (s, w))) = sent w"
  by (simp_all add: commit_frame handleTextChange_frame handleImageSelect_frame
        handleRemoveImage_frame elapse_frame)

lemma other_uploads:
  "uploads (snd (step p (TextChange v) (s, w))) = uploads w"
  "uploads (snd (step p (FileChange fo) (s, w))) = uploads w"
  "uploads (snd (step p RemoveClick (s, w))) = uploads w"
  "uploads (snd (step p (Elapse d) (s, w))) = uploads w"
  by (simp_all add: commit_frame handleTextChange_frame handleImageSelect_frame
        handleRemoveImage_frame elapse_frame)

lemma histInv_run: "histInv p evs"
proof (induction evs rule: rev_induct)
  case Nil
  show ?case by (simp add: histInv_def run_Nil initial_def sent_def)
next
  case (snoc e evs)
  obtain s w where c: "run p evs initial = (s, w)" by (cases "run p evs initial")
  let ?old = "set (submitted p evs initial)"
  let ?new = "set (submitted p (evs @ [e]) initial)"
  have sub: "?old \<subseteq> ?new" by (simp add: submitted_snoc)
  from snoc c have sm: "\<forall>m\<in>set (sent w). text_m m \<in> trim ` ?old"
    and up: "\<forall>pd\<in>set (uploads w). pd_messageText pd \<in> ?old"
    by (simp_all add: histInv_def list_all_iff)
  from sm sub have sm': "\<forall>m\<in>set (sent w). text_m m \<in> trim ` ?new" by blast
  from up sub have up': "\<forall>pd\<in>set (uploads w). pd_messageText pd \<in> ?new" by blast
  have r: "run p (evs @ [e]) initial = step p e (s, w)" by (simp add: run_append run_Cons run_Nil c)
  have "(\<forall>m\<in>set (sent (snd (step p e (s, w)))). text_m m \<in> trim ` ?new) \<and>
        (\<forall>pd\<in>set (uploads (snd (step p e (s, w)))). pd_messageText pd \<in> ?new)"
  proof (cases e)
    case (TextChange v)
    with sm' up' show ?thesis by (simp only: other_sent other_uploads)
  next
    case (FileChange fo)
    with sm' up' show ?thesis by (simp only: other_sent other_uploads)
  next
    case RemoveClick
    with sm' up' show ?thesis by (simp only: other_sent other_uploads)
  next
    case (Elapse d)
    with sm' up' show ?thesis by (simp only: other_sent other_uploads)
  next
    case Submit
    have n: "\<not> submitDisabled s \<Longrightarrow> text_s s \<in> ?new"
      by (simp add: submitted_snoc Submit c)
    from sm' up' n show ?thesis
      unfolding Submit submit_sent submit_uploads
      by (auto split: option.splits)
  next
    case (UploadSettled out)
    show ?thesis
    proof (cases "uploads w")
      case Nil
      with sm' up' show ?thesis by (simp add: UploadSettled)
    next
      case (Cons pd rest)
      with up' have pd: "pd_messageText pd \<in> ?new" and rest: "\<forall>pd\<in>set rest. pd_messageText pd \<in> ?new"
        by simp_all
      from sm' pd rest show ?thesis
        unfolding UploadSettled settled_sent [OF Cons] settled_uploads Cons
        by (auto split: sum.splits)
    qed
  qed
  then show ?case unfolding histInv_def r by (simp add: list_all_iff)
qed

lemma trim_examples:
  "trim (js '' see this '') = js ''see this''" "trim (js '' hello '') = js ''hello''"
  by (simp_all add: trim_def js_def isWhiteSpace_def)

lemma example_pendingSend:
  "pendingSend =
     (\<lparr>text_s = js '' see this '', uploading = True, selectedImage = Some 0,
       selectedFile = Some fileA, fileInputRef = Some [], typingTimeoutRef = Some 1\<rparr>,
      \<lparr>now = 0, timers = [(1, 1000, True)], timerCount = 1, liveURLs = [0], nextURL = 1,
       uploads = [\<lparr>pd_props = exampleProps, pd_file = fileA,
                   pd_messageText = js '' see this '', pd_mediaType = []\<rparr>],
       log = [(0, OnTyping), (0, CreateObjectURL fileA 0), (0, UploadImage fileA)]\<rparr>)"
proof -
  have 1: "step exampleProps (TextChange (js '' see this '')) initial =
     (\<lparr>text_s = js '' see this '', uploading = False, selectedImage = None,
       selectedFile = None, fileInputRef = Some [], typingTimeoutRef = Some 1\<rparr>,
      \<lparr>now = 0, timers = [(1, 1000, True)], timerCount = 1, liveURLs = [], nextURL = 0,
       uploads = [], log = [(0, OnTyping)]\<rparr>)"
    by (simp add: initial_def handleTextChange_def setTimeout_def emit_def commit_def
          exampleProps_def)
  show ?thesis
    unfolding pendingSend_def run_Cons run_Nil 1
    by (simp add: handleImageSelect_def fileA_def startsWith_def js_def createObjectURL_def
          emit_def commit_def cleanup_def submitDisabled_def handleSubmit_def handleSend_def)
qed

lemma example_submitted:
  "submitted exampleProps exampleRun initial = [js '' see this '']"
proof -
  have 1: "step exampleProps (TextChange (js '' see this '')) initial =
     (\<lparr>text_s = js '' see this '', uploading = False, selectedImage = None,
       selectedFile = None, fileInputRef = Some [], typingTimeoutRef = Some 1\<rparr>,
      \<lparr>now = 0, timers = [(1, 1000, True)], timerCount = 1, liveURLs = [], nextURL = 0,
       uploads = [], log = [(0, OnTyping)]\<rparr>)"
    by (simp add: initial_def handleTextChange_def setTimeout_def emit_def commit_def
          exampleProps_def)
  show ?thesis
    unfolding exampleRun_def submitted.simps 1
    by (simp add: handleImageSelect_def fileA_def startsWith_def js_def createObjectURL_def
          emit_def commit_def cleanup_def submitDisabled_def handleSubmit_def handleSend_def)
qed


section \<open>Sending\<close>

text \<open>
  C1. Let \<^verbatim>\<open>onSendMessage\<close> be supplied. A send whose draft has, after the upload
  step, a non-empty trimmed text or a media URL hands the payload (chat id, receiver id,
  trimmed text, media URL, media type) to the callback exactly once and then clears text,
  selected file and preview and empties the file input. Without an upload this is
  \<^verbatim>\<open>handleSend\<close> itself; with a selected file the invocation is suspended at the
  upload call, and when that call resolves with a success flag and a non-empty
  \<^verbatim>\<open>data.url\<close>, the resumed invocation delivers that URL with media type
  \<^verbatim>\<open>'image'\<close> and clears the draft.
\<close>

theorem handleSend_delivers_once:
  assumes "onSendMessage p"
  shows
   "((selectedFile s = None \<or> mURL \<noteq> []) \<and> (trim t \<noteq> [] \<or> mURL \<noteq> []) \<longrightarrow>
       (let c = handleSend p t mURL mType (s, w) in
          sent (snd c) = sent w @ [\<lparr>chatId = chatId_p p, receiverId = receiverId_p p,
                                   text_m = trim t, mediaURL = mURL, mediaType = mType\<rparr>] \<and>
          draft (fst c) = ([], None, None) \<and>
          fileInputRef (fst c) = (case fileInputRef s of None \<Rightarrow> None | Some v \<Rightarrow> Some [])))
    \<and> (selectedFile s = Some f \<and> success r \<and> data r = Some (Some url) \<and> url \<noteq> [] \<longrightarrow>
       handleSend p t [] mType (s, w) =
         (s\<lparr>uploading := True\<rparr>,
          emit (UploadImage f)
            (w\<lparr>uploads := uploads w @
               [\<lparr>pd_props = p, pd_file = f, pd_messageText = t, pd_mediaType = mType\<rparr>]\<rparr>)) \<and>
       (let c = afterUpload \<lparr>pd_props = p, pd_file = f, pd_messageText = t, pd_mediaType = mType\<rparr>
                  (Resolved r) (s1, w1) in
          sent (snd c) = sent w1 @ [\<lparr>chatId = chatId_p p, receiverId = receiverId_p p,
                                    text_m = trim t, mediaURL = url, mediaType = js ''image''\<rparr>] \<and>
          draft (fst c) = ([], None, None) \<and>
          fileInputRef (fst c) = (case fileInputRef s1 of None \<Rightarrow> None | Some v \<Rightarrow> Some []) \<and>
          \<not> uploading (fst c)))"
proof (intro conjI impI)
  assume a: "(selectedFile s = None \<or> mURL \<noteq> []) \<and> (trim t \<noteq> [] \<or> mURL \<noteq> [])"
  then have "handleSend p t mURL mType (s, w) = sendTail p t mURL mType (s, w)"
    by (auto simp: handleSend_def split: option.splits)
  with a assms show "let c = handleSend p t mURL mType (s, w) in
          sent (snd c) = sent w @ [\<lparr>chatId = chatId_p p, receiverId = receiverId_p p,
                                   text_m = trim t, mediaURL = mURL, mediaType = mType\<rparr>] \<and>
          draft (fst c) = ([], None, None) \<and>
          fileInputRef (fst c) = (case fileInputRef s of None \<Rightarrow> None | Some v \<Rightarrow> Some [])"
    by (simp add: sendTail_delivers sent_emit draft_def resetFileInput_fields)
next
  assume a: "selectedFile s = Some f \<and> success r \<and> data r = Some (Some url) \<and> url \<noteq> []"
  then show "handleSend p t [] mType (s, w) =
         (s\<lparr>uploading := True\<rparr>,
          emit (UploadImage f)
            (w\<lparr>uploads := uploads w @
               [\<lparr>pd_props = p, pd_file = f, pd_messageText = t, pd_mediaType = mType\<rparr>]\<rparr>))"
    by (simp add: handleSend_def)
  from a have "tryUpload (Resolved r) = Inr url" by (simp add: tryUpload_success)
  with a assms show "let c = afterUpload \<lparr>pd_props = p, pd_file = f, pd_messageText = t, pd_mediaType = mType\<rparr>
                  (Resolved r) (s1, w1) in
          sent (snd c) = sent w1 @ [\<lparr>chatId = chatId_p p, receiverId = receiverId_p p,
                                    text_m = trim t, mediaURL = url, mediaType = js ''image''\<rparr>] \<and>
          draft (fst c) = ([], None, None) \<and>
          fileInputRef (fst c) = (case fileInputRef s1 of None \<Rightarrow> None | Some v \<Rightarrow> Some []) \<and>
          \<not> uploading (fst c)"
    by (simp add: afterUpload_def sendTail_delivers sent_emit draft_def resetFileInput_fields)
qed

theorem handleSend_delivers_once_witness:
  "onSendMessage exampleProps \<and>
   selectedFile exampleState = Some fileA \<and> success exampleResponse \<and>
   data exampleResponse = Some (Some (js ''http://x/y.png'')) \<and> js ''http://x/y.png'' \<noteq> [] \<and>
   uploading (fst (handleSend exampleProps (js '' see this '') [] [] (exampleState, snd initial))) \<and>
   (let c = afterUpload \<lparr>pd_props = exampleProps, pd_file = fileA,
                          pd_messageText = js '' see this '', pd_mediaType = []\<rparr>
              (Resolved exampleResponse) (exampleState\<lparr>uploading := True\<rparr>, snd initial)
    in sent (snd c) = [\<lparr>chatId = js ''chat1'', receiverId = js ''user2'', text_m = js ''see this'',
                         mediaURL = js ''http://x/y.png'', mediaType = js ''image''\<rparr>] \<and>
       draft (fst c) = ([], None, None) \<and> fileInputRef (fst c) = Some [] \<and> \<not> uploading (fst c))"
proof -
  have h: "onSendMessage exampleProps" by (simp add: exampleProps_def)
  have g: "selectedFile exampleState = Some fileA \<and> success exampleResponse \<and>
    data exampleResponse = Some (Some (js ''http://x/y.png'')) \<and> js ''http://x/y.png'' \<noteq> []"
    by (simp add: exampleState_def exampleResponse_def js_def)
  have t: "trim (js '' see this '') = js ''see this''"
    by (simp add: trim_def js_def isWhiteSpace_def)
  have e: "sent (snd initial) = []" by (simp add: initial_def sent_def)
  have c: "chatId_p exampleProps = js ''chat1''" "receiverId_p exampleProps = js ''user2''"
    by (simp_all add: exampleProps_def)
  have f: "fileInputRef exampleState = Some (js ''C:/fakepath/a.png'')"
    by (simp add: exampleState_def)
  note th = handleSend_delivers_once [OF h, of exampleState "[]" "js '' see this ''" "[]" "snd initial"
        fileA exampleResponse "js ''http://x/y.png''" "exampleState\<lparr>uploading := True\<rparr>" "snd initial"]
  from th g show ?thesis
    by (simp add: h t e c f)
qed

text \<open>
  C2. When the message text is empty or consists of white space only and there is no
  media URL, line 84 returns: nothing is sent and nothing is cleared. A send without a
  selected file reaches that line at once, so \<^verbatim>\<open>handleSend\<close> leaves state and
  environment as they were, and so does a submit event in that state.
\<close>

theorem empty_send_is_noop:
  assumes "\<forall>c\<in>set t. isWhiteSpace c"
  shows "sendTail p t [] mType (s, w) = (s, w) \<and>
         (selectedFile s = None \<longrightarrow>
            handleSend p t [] mType (s, w) = (s, w) \<and>
            (text_s s = t \<longrightarrow> step p Submit (s, w) = (s, w)))"
proof -
  from assms have "trim t = []" by (simp add: trim_empty_iff)
  then have "sendTail p t [] mType (s, w) = (s, w)" by (simp add: sendTail_def)
  with \<open>trim t = []\<close> show ?thesis by (simp add: handleSend_def submitDisabled_def)
qed

theorem empty_send_is_noop_witness:
  "list_all isWhiteSpace (js ''  '') \<and> selectedFile (fst initial) = None \<and>
   handleSend exampleProps (js ''  '') [] [] initial = initial \<and>
   sent (snd (handleSend exampleProps (js ''  '') [] [] initial)) = []"
proof -
  have l: "list_all isWhiteSpace (js ''  '')" by (simp add: js_def isWhiteSpace_def)
  then have h: "\<forall>c\<in>set (js ''  ''). isWhiteSpace c" by (simp only: list_all_iff)
  have n: "selectedFile (fst initial) = None" by (simp add: initial_def)
  have e: "sent (snd initial) = []" by (simp add: initial_def sent_def)
  from empty_send_is_noop [OF h, of exampleProps "[]" "fst initial" "snd initial"] n
  have "handleSend exampleProps (js ''  '') [] [] initial = initial" by simp
  with l n e show ?thesis by simp
qed

text \<open>
  C3. A send with a selected file is suspended at the upload call. When the call
  rejects, or resolves without a success flag or without \<^verbatim>\<open>data.url\<close>, the resumed
  invocation alerts one message (of a rejection the nested message of the service, else
  the error's own message, else the generic one; of a malformed result its message, else
  \<^verbatim>\<open>'Upload failed'\<close>), calls \<^verbatim>\<open>onSendMessage\<close> not at all, clears
  \<open>uploading\<close>, and leaves text, selected file, preview and the file input as they
  are.
\<close>

theorem upload_failure_aborts:
  assumes "selectedFile s = Some f" and "uploadFails out"
  shows
   "handleSend p t [] mType (s, w) =
      (s\<lparr>uploading := True\<rparr>,
       emit (UploadImage f)
         (w\<lparr>uploads := uploads w @
            [\<lparr>pd_props = p, pd_file = f, pd_messageText = t, pd_mediaType = mType\<rparr>]\<rparr>)) \<and>
    (let c = afterUpload \<lparr>pd_props = p, pd_file = f, pd_messageText = t, pd_mediaType = mType\<rparr>
               out (s1, w1) in
       alerts (snd c) = alerts w1 @ [shownError out] \<and>
       sent (snd c) = sent w1 \<and>
       draft (fst c) = draft s1 \<and>
       fileInputRef (fst c) = fileInputRef s1 \<and>
       \<not> uploading (fst c))"
proof -
  from assms(2) obtain e where e: "tryUpload out = Inl e" "errorMessage e = shownError out"
    using tryUpload_fails by blast
  show ?thesis using assms(1)
    by (simp add: handleSend_def afterUpload_def e alert_def alerts_emit sent_emit draft_def)
qed

theorem upload_failure_aborts_witness:
  "selectedFile exampleState = Some fileA \<and> uploadFails (Rejected exampleError) \<and>
   (let c = afterUpload \<lparr>pd_props = exampleProps, pd_file = fileA,
                          pd_messageText = js '' see this '', pd_mediaType = []\<rparr>
              (Rejected exampleError) (exampleState\<lparr>uploading := True\<rparr>, snd initial)
    in alerts (snd c) = [js ''Quota exceeded''] \<and> sent (snd c) = [] \<and>
       draft (fst c) = (js '' see this '', Some fileA, Some 0) \<and> \<not> uploading (fst c))"
proof -
  have h: "selectedFile exampleState = Some fileA" by (simp add: exampleState_def)
  have u: "uploadFails (Rejected exampleError)" by simp
  have m: "shownError (Rejected exampleError) = js ''Quota exceeded''"
    by (simp add: exampleError_def js_def)
  have e: "alerts (snd initial) = []" "sent (snd initial) = []"
    by (simp_all add: initial_def alerts_def sent_def)
  have d: "draft (exampleState\<lparr>uploading := True\<rparr>) = (js '' see this '', Some fileA, Some 0)"
    by (simp add: draft_def exampleState_def)
  from upload_failure_aborts [OF h u, of exampleProps "js '' see this ''" "[]" "snd initial"
      "exampleState\<lparr>uploading := True\<rparr>" "snd initial"]
  show ?thesis by (simp add: h m e d Let_def del: shownError.simps)
qed

text \<open>
  C9. \<^verbatim>\<open>handleSend\<close> is called by \<^verbatim>\<open>handleSubmit\<close> only, with the text of the
  draft and the default media arguments. So every payload handed to
  \<^verbatim>\<open>onSendMessage\<close> in any run of the component from its mounted state has a
  non-empty media URL exactly when its media type is \<^verbatim>\<open>'image'\<close>, and its text is
  the trimmed text of the draft at a submit event of the run: it has no white space at
  either end and is a fixed point of \<^verbatim>\<open>trim\<close>. Event by event: a submit that needs
  no upload sends one payload with the trimmed text of the draft and no media; a submit
  with a selected file sends nothing and suspends with the text of the draft; the
  settling of an upload sends, on success, one payload with the trimmed text the
  suspended send holds, the URL and the type \<^verbatim>\<open>'image'\<close>, and nothing on failure; no
  other event sends.
\<close>

theorem payloads_well_formed:
  "(\<forall>m\<in>set (sent (snd (run p evs initial))).
      ((mediaURL m \<noteq> []) = (mediaType m = js ''image'')) \<and>
      noOuterWhiteSpace (text_m m) \<and> trim (text_m m) = text_m m \<and>
      text_m m \<in> trim ` set (submitted p evs initial)) \<and>
   sent (snd (step p Submit (s, w))) =
     sent w @
     (if \<not> submitDisabled s \<and> selectedFile s = None \<and> onSendMessage p
      then [\<lparr>chatId = chatId_p p, receiverId = receiverId_p p, text_m = trim (text_s s),
              mediaURL = [], mediaType = []\<rparr>]
      else []) \<and>
   uploads (snd (step p Submit (s, w))) =
     uploads w @
     (if submitDisabled s then []
      else case selectedFile s of
             None \<Rightarrow> []
           | Some f \<Rightarrow> [\<lparr>pd_props = p, pd_file = f, pd_messageText = text_s s,
                         pd_mediaType = []\<rparr>]) \<and>
   (uploads w = pd # rest \<longrightarrow>
      sent (snd (step p (UploadSettled out) (s, w))) =
        sent w @
        (case tryUpload out of
           Inl e \<Rightarrow> []
         | Inr url \<Rightarrow>
             if onSendMessage (pd_props pd)
             then [\<lparr>chatId = chatId_p (pd_props pd), receiverId = receiverId_p (pd_props pd),
                     text_m = trim (pd_messageText pd), mediaURL = url,
                     mediaType = js ''image''\<rparr>]
             else [])) \<and>
   sent (snd (step p (TextChange v) (s, w))) = sent w \<and>
   sent (snd (step p (FileChange fo) (s, w))) = sent w \<and>
   sent (snd (step p RemoveClick (s, w))) = sent w \<and>
   sent (snd (step p (Elapse d) (s, w))) = sent w"
proof -
  have "sentInv (run p evs initial)" by (rule sentInv_run) (rule sentInv_initial)
  then have a: "\<forall>m\<in>set (sent (snd (run p evs initial))).
      ((mediaURL m \<noteq> []) = (mediaType m = js ''image'')) \<and>
      noOuterWhiteSpace (text_m m) \<and> trim (text_m m) = text_m m"
    by (simp add: sentInv_def list_all_iff goodPayload_def)
  have b: "\<forall>m\<in>set (sent (snd (run p evs initial))).
      text_m m \<in> trim ` set (submitted p evs initial)"
    using histInv_run [of p evs] by (simp add: histInv_def list_all_iff)
  from a b have 1: "\<forall>m\<in>set (sent (snd (run p evs initial))).
      ((mediaURL m \<noteq> []) = (mediaType m = js ''image'')) \<and>
      noOuterWhiteSpace (text_m m) \<and> trim (text_m m) = text_m m \<and>
      text_m m \<in> trim ` set (submitted p evs initial)" by blast
  note 2 = submit_sent [of p s w] and 3 = submit_uploads [of p s w]
  have 4: "uploads w = pd # rest \<longrightarrow>
      sent (snd (step p (UploadSettled out) (s, w))) =
        sent w @
        (case tryUpload out of
           Inl e \<Rightarrow> []
         | Inr url \<Rightarrow>
             if onSendMessage (pd_props pd)
             then [\<lparr>chatId = chatId_p (pd_props pd), receiverId = receiverId_p (pd_props pd),
                     text_m = trim (pd_messageText pd), mediaURL = url,
                     mediaType = js ''image''\<rparr>]
             else [])"
    using settled_sent [of w pd rest p out s] by blast
  show ?thesis by (intro conjI 1 2 3 4 other_sent)
qed

theorem payloads_well_formed_witness:
  "uploads (snd pendingSend) =
     [\<lparr>pd_props = exampleProps, pd_file = fileA, pd_messageText = js '' see this '',
       pd_mediaType = []\<rparr>] \<and>
   sent (snd (run exampleProps exampleRun initial)) = [imagePayload] \<and>
   mediaURL imagePayload \<noteq> [] \<and> mediaType imagePayload = js ''image'' \<and>
   submitted exampleProps exampleRun initial = [js '' see this ''] \<and>
   text_m imagePayload = trim (js '' see this '') \<and>
   noOuterWhiteSpace (text_m imagePayload) \<and>
   sent (snd (run exampleProps [TextChange (js '' hello ''), Submit] initial)) = [textPayload] \<and>
   mediaURL textPayload = [] \<and> mediaType textPayload \<noteq> js ''image'' \<and>
   text_m textPayload = trim (js '' hello '')"
proof -
  let ?pd = "\<lparr>pd_props = exampleProps, pd_file = fileA, pd_messageText = js '' see this '',
       pd_mediaType = []\<rparr>"
  have u: "uploads (snd pendingSend) = ?pd # []" and sw: "sent (snd pendingSend) = []"
    by (simp_all add: example_pendingSend sent_def)
  have r: "run exampleProps exampleRun initial =
      step exampleProps (UploadSettled (Resolved exampleResponse)) (fst pendingSend, snd pendingSend)"
    by (simp add: exampleRun_def pendingSend_def run_def)
  have tu: "tryUpload (Resolved exampleResponse) = Inr (js ''http://x/y.png'')"
    by (rule tryUpload_success) (simp_all add: exampleResponse_def js_def)
  have cb: "onSendMessage exampleProps" "chatId_p exampleProps = js ''chat1''"
    "receiverId_p exampleProps = js ''user2''"
    by (simp_all add: exampleProps_def)
  note th = payloads_well_formed [where p = exampleProps and evs = exampleRun
      and s = "fst pendingSend" and w = "snd pendingSend" and pd = ?pd and rest = "[]"
      and out = "Resolved exampleResponse"]
  from th u have "sent (snd (step exampleProps (UploadSettled (Resolved exampleResponse))
        (fst pendingSend, snd pendingSend))) =
      sent (snd pendingSend) @
        (case tryUpload (Resolved exampleResponse) of
           Inl e \<Rightarrow> []
         | Inr url \<Rightarrow>
             if onSendMessage (pd_props ?pd)
             then [\<lparr>chatId = chatId_p (pd_props ?pd), receiverId = receiverId_p (pd_props ?pd),
                     text_m = trim (pd_messageText ?pd), mediaURL = url,
                     mediaType = js ''image''\<rparr>]
             else [])"
    by blast
  then have 1: "sent (snd (run exampleProps exampleRun initial)) = [imagePayload]"
    unfolding r sw tu by (simp add: cb trim_examples imagePayload_def)
  from th 1 have 2: "((mediaURL imagePayload \<noteq> []) = (mediaType imagePayload = js ''image'')) \<and>
      noOuterWhiteSpace (text_m imagePayload) \<and>
      text_m imagePayload \<in> trim ` set (submitted exampleProps exampleRun initial)"
    by simp
  have 3: "mediaURL imagePayload \<noteq> []" by (simp add: imagePayload_def js_def)
  from 2 have 4: "text_m imagePayload = trim (js '' see this '')"
    by (simp add: example_submitted)
  have 5: "sent (snd (run exampleProps [TextChange (js '' hello ''), Submit] initial)) = [textPayload]"
    by (simp add: example_text_sent textPayload_def)
  from payloads_well_formed [where p = exampleProps and evs = "[TextChange (js '' hello ''), Submit]"] 5
  have 6: "(mediaURL textPayload \<noteq> []) = (mediaType textPayload = js ''image'')" by simp
  have 7: "mediaURL textPayload = []" "text_m textPayload = trim (js '' hello '')"
    by (simp_all add: textPayload_def trim_examples)
  from u 1 2 3 4 5 6 7 show ?thesis by (simp add: example_submitted)
qed

section \<open>The uploading flag\<close>

text \<open>
  C4. In every state the component reaches from its mounted state, \<open>uploading\<close> is
  true exactly when an upload call is in flight. \<^verbatim>\<open>handleSend\<close> with a selected
  file and no media URL sets it and registers the call; the resumed invocation clears it
  whatever the call settled with (success, malformed result or rejection), and after
  the settling of the call the flag is clear.
\<close>

theorem uploading_iff_outstanding:
  "uploading (fst (run p evs initial)) = (uploads (snd (run p evs initial)) \<noteq> []) \<and>
   (selectedFile s = Some f \<longrightarrow>
      uploading (fst (handleSend p t [] mType (s, w))) \<and>
      uploads (snd (handleSend p t [] mType (s, w))) =
        uploads w @ [\<lparr>pd_props = p, pd_file = f, pd_messageText = t, pd_mediaType = mType\<rparr>]) \<and>
   \<not> uploading (fst (afterUpload pd out (s1, w1))) \<and>
   \<not> uploading (fst (step p (UploadSettled out) (run p evs initial)))"
proof (intro conjI impI)
  show "uploading (fst (run p evs initial)) = (uploads (snd (run p evs initial)) \<noteq> [])"
    using upInv_reach [of p evs] by (simp add: upInv_def)
next
  assume "selectedFile s = Some f"
  then show "uploading (fst (handleSend p t [] mType (s, w)))"
    and "uploads (snd (handleSend p t [] mType (s, w))) =
        uploads w @ [\<lparr>pd_props = p, pd_file = f, pd_messageText = t, pd_mediaType = mType\<rparr>]"
    by (simp_all add: handleSend_Some emit_fields)
next
  show "\<not> uploading (fst (afterUpload pd out (s1, w1)))"
    by (rule afterUpload_frame)
next
  have "upInv (step p (UploadSettled out) (run p evs initial))"
    by (rule upInv_step) (rule upInv_reach)
  moreover have "uploads (snd (step p (UploadSettled out) (run p evs initial))) = []"
  proof -
    obtain s' w' where c: "run p evs initial = (s', w')" by (cases "run p evs initial")
    from upInv_reach [of p evs] c have l: "length (uploads w') \<le> 1" by (simp add: upInv_def)
    show ?thesis
    proof (cases "uploads w'")
      case Nil
      then show ?thesis by (simp add: c)
    next
      case (Cons pd' rest)
      with l have "rest = []" by simp
      with Cons show ?thesis by (simp add: c commit_frame afterUpload_frame)
    qed
  qed
  ultimately show "\<not> uploading (fst (step p (UploadSettled out) (run p evs initial)))"
    by (simp add: upInv_def)
qed

theorem uploading_iff_outstanding_witness:
  "selectedFile exampleState = Some fileA \<and>
   uploading (fst (handleSend exampleProps (js ''hi'') [] [] (exampleState, snd initial))) \<and>
   uploads (snd (run exampleProps [FileChange (Some fileA), Submit] initial)) \<noteq> [] \<and>
   uploading (fst (run exampleProps [FileChange (Some fileA), Submit] initial)) \<and>
   \<not> uploading (fst (step exampleProps (UploadSettled (Rejected exampleError))
                        (run exampleProps [FileChange (Some fileA), Submit] initial)))"
proof -
  have h: "selectedFile exampleState = Some fileA" by (simp add: exampleState_def)
  have u: "uploads (snd (run exampleProps [FileChange (Some fileA), Submit] initial)) \<noteq> []"
    by (simp add: example_upload_started)
  from uploading_iff_outstanding [of exampleProps "[FileChange (Some fileA), Submit]"
      exampleState fileA "js ''hi''" "[]" "snd initial"
      "\<lparr>pd_props = exampleProps, pd_file = fileA, pd_messageText = [], pd_mediaType = []\<rparr>"
      "Rejected exampleError" exampleState "snd initial"] h u
  show ?thesis by simp
qed

text \<open>
  C8. While \<open>uploading\<close> is set the submit button is disabled and a submit event
  changes nothing. In every reachable state at most one upload call is in flight, and
  while one is, the button is disabled and a submit event starts no second send.
\<close>

theorem no_second_send_while_uploading:
  "(uploading s \<longrightarrow> submitDisabled s \<and> step p Submit (s, w) = (s, w)) \<and>
   length (uploads (snd (run p evs initial))) \<le> 1 \<and>
   (uploads (snd (run p evs initial)) \<noteq> [] \<longrightarrow>
      submitDisabled (fst (run p evs initial)) \<and>
      step p Submit (run p evs initial) = run p evs initial)"
proof (intro conjI impI)
  assume "uploading s"
  then show "submitDisabled s" and "step p Submit (s, w) = (s, w)"
    by (simp_all add: submitDisabled_def)
next
  show "length (uploads (snd (run p evs initial))) \<le> 1"
    using upInv_reach [of p evs] by (simp add: upInv_def)
next
  assume a: "uploads (snd (run p evs initial)) \<noteq> []"
  obtain s' w' where c: "run p evs initial = (s', w')" by (cases "run p evs initial")
  from upInv_reach [of p evs] a c have "uploading s'" by (simp add: upInv_def)
  then show "submitDisabled (fst (run p evs initial))"
    and "step p Submit (run p evs initial) = run p evs initial"
    by (simp_all add: c submitDisabled_def)
qed

theorem no_second_send_while_uploading_witness:
  "uploads (snd (run exampleProps [FileChange (Some fileA), Submit] initial)) \<noteq> [] \<and>
   uploading (fst (run exampleProps [FileChange (Some fileA), Submit] initial)) \<and>
   submitDisabled (fst (run exampleProps [FileChange (Some fileA), Submit] initial)) \<and>
   run exampleProps [FileChange (Some fileA), Submit, Submit] initial =
     run exampleProps [FileChange (Some fileA), Submit] initial"
proof -
  have u: "uploads (snd (run exampleProps [FileChange (Some fileA), Submit] initial)) \<noteq> []"
    and v: "uploading (fst (run exampleProps [FileChange (Some fileA), Submit] initial))"
    by (simp_all add: example_upload_started)
  have r: "run exampleProps [FileChange (Some fileA), Submit, Submit] initial =
     step exampleProps Submit (run exampleProps [FileChange (Some fileA), Submit] initial)"
    by (simp add: run_def)
  from no_second_send_while_uploading [of "fst (run exampleProps [FileChange (Some fileA), Submit] initial)"
      exampleProps "snd (run exampleProps [FileChange (Some fileA), Submit] initial)"
      "[FileChange (Some fileA), Submit]"] u v r
  show ?thesis by simp
qed

section \<open>Typing notifications\<close>

text \<open>
  C5. Let \<^verbatim>\<open>onTyping\<close> and \<^verbatim>\<open>onStopTyping\<close> be supplied. Every text change
  stores the new text and calls \<^verbatim>\<open>onTyping\<close>. For a burst of keystrokes that starts
  with no timer pending and in which every keystroke after the first comes less than
  1000 ms after the one before: the text is that of the last keystroke,
  \<^verbatim>\<open>onTyping\<close> was called once per keystroke, no \<^verbatim>\<open>onStopTyping\<close> was called
  during the burst, and exactly one timer is pending, due 1000 ms after the last
  keystroke (each keystroke cancelled the timer of the one before). When at least
  1000 ms pass after the burst, \<^verbatim>\<open>onStopTyping\<close> is called exactly once, 1000 ms
  after the last keystroke, and no timer remains.
\<close>

theorem typing_debounce:
  assumes "onTyping p" and "onStopTyping p" and "timers w = []"
    and "\<forall>k\<in>set ks. fst k < 1000" and "1000 \<le> T"
  shows
   "text_s (fst (handleTextChange p v0 (s0, w0))) = v0 \<and>
    starts (snd (handleTextChange p v0 (s0, w0))) = starts w0 @ [now w0] \<and>
    text_s (fst (run p (keystrokes ((d, v) # ks)) (s, w))) = snd (last ((d, v) # ks)) \<and>
    starts (snd (run p (keystrokes ((d, v) # ks)) (s, w))) =
      starts w @ keyTimes (now w) ((d, v) # ks) \<and>
    stops (snd (run p (keystrokes ((d, v) # ks)) (s, w))) = stops w \<and>
    timers (snd (run p (keystrokes ((d, v) # ks)) (s, w))) =
      [(timerCount w + length ((d, v) # ks), last (keyTimes (now w) ((d, v) # ks)) + 1000, True)] \<and>
    stops (snd (run p (keystrokes ((d, v) # ks) @ [Elapse T]) (s, w))) =
      stops w @ [last (keyTimes (now w) ((d, v) # ks)) + 1000] \<and>
    timers (snd (run p (keystrokes ((d, v) # ks) @ [Elapse T]) (s, w))) = []"
proof -
  let ?c0 = "run p [Elapse d, TextChange v] (s, w)"
  let ?c1 = "run p (keystrokes ((d, v) # ks)) (s, w)"
  let ?tl = "last (keyTimes (now w) ((d, v) # ks))"
  note t = assms(1,2)
  note 0 = first_key [OF t assms(3), of d v s]
  from 0 have a0: "armed ?c0" by blast
  from assms(4) have g: "list_all (\<lambda>k. fst k < 1000) ks" by (simp add: list_all_iff)
  note 1 = burst [OF t a0 g]
  have r: "?c1 = run p (keystrokes ks) ?c0" by (simp add: run_Cons run_Nil)
  have tl: "?tl = last ((now w + d) # keyTimes (now w + d) ks)" by simp
  from 0 1 have a1: "armed ?c1" and n1: "now (snd ?c1) = ?tl"
    and st1: "starts (snd ?c1) = starts w @ keyTimes (now w) ((d, v) # ks)"
    and sp1: "stops (snd ?c1) = stops w"
    and tx1: "text_s (fst ?c1) = snd (last ((d, v) # ks))"
    and tc1: "timerCount (snd ?c1) = timerCount w + length ((d, v) # ks)"
    unfolding r tl by simp_all
  from a1 n1 tc1 have tm1: "timers (snd ?c1) =
      [(timerCount w + length ((d, v) # ks), ?tl + 1000, True)]"
    by (simp add: armed_def)
  obtain s1 w1 where c1: "?c1 = (s1, w1)" by (cases ?c1)
  from tm1 c1 have tw1: "timers w1 = [(timerCount w + length ((d, v) # ks), now w1 + 1000, True)]"
    using n1 by simp
  have el: "elapse T w1 =
      w1\<lparr>timers := [], now := now w1 + T, log := log w1 @ [(now w1 + 1000, OnStopTyping)]\<rparr>"
    using tw1 assms(5) by (intro elapse_fires) simp_all
  have c2: "run p (keystrokes ((d, v) # ks) @ [Elapse T]) (s, w) = (s1, elapse T w1)"
    unfolding run_append c1 by (simp add: run_Cons run_Nil)
  have sp2: "stops (snd (run p (keystrokes ((d, v) # ks) @ [Elapse T]) (s, w))) =
      stops w @ [?tl + 1000]"
    unfolding c2 el using sp1 n1 c1 by (simp add: stops_def)
  have tm2: "timers (snd (run p (keystrokes ((d, v) # ks) @ [Elapse T]) (s, w))) = []"
    unfolding c2 el by simp
  from t have h: "text_s (fst (handleTextChange p v0 (s0, w0))) = v0"
    "starts (snd (handleTextChange p v0 (s0, w0))) = starts w0 @ [now w0]"
    by (simp_all add: handleTextChange_obs)
  from h tx1 st1 sp1 tm1 sp2 tm2 show ?thesis by blast
qed

theorem typing_debounce_witness:
  "onTyping exampleProps \<and> onStopTyping exampleProps \<and> timers (snd initial) = [] \<and>
   list_all (\<lambda>k. fst k < 1000) exampleKeys \<and> (1000::nat) \<le> 1000 \<and>
   text_s (fst (run exampleProps (keystrokes ((5, js ''h'') # exampleKeys)) initial)) = js ''hi!'' \<and>
   starts (snd (run exampleProps (keystrokes ((5, js ''h'') # exampleKeys)) initial)) = [5, 305, 1304] \<and>
   stops (snd (run exampleProps (keystrokes ((5, js ''h'') # exampleKeys)) initial)) = [] \<and>
   stops (snd (run exampleProps (keystrokes ((5, js ''h'') # exampleKeys) @ [Elapse 1000]) initial)) = [2304]"
proof -
  have t: "onTyping exampleProps" "onStopTyping exampleProps" by (simp_all add: exampleProps_def)
  have e: "timers (snd initial) = []" by (simp add: initial_def)
  have g: "list_all (\<lambda>k. fst k < 1000) exampleKeys" by (simp add: exampleKeys_def)
  then have g': "\<forall>k\<in>set exampleKeys. fst k < 1000" by (simp only: list_all_iff)
  have T: "(1000::nat) \<le> 1000" by simp
  have i: "(fst initial, snd initial) = initial" by simp
  have o: "starts (snd initial) = []" "stops (snd initial) = []" "now (snd initial) = 0"
    by (simp_all add: initial_def starts_def stops_def)
  have k: "keyTimes 0 ((5, js ''h'') # exampleKeys) = [5, 305, 1304]"
    "snd (last ((5, js ''h'') # exampleKeys)) = js ''hi!''"
    by (simp_all add: exampleKeys_def)
  note th = typing_debounce [OF t e g' T, of "[]" "fst initial" "snd initial" 5 "js ''h''" "fst initial",
      unfolded i o k]
  from th have
    "text_s (fst (run exampleProps (keystrokes ((5, js ''h'') # exampleKeys)) initial)) = js ''hi!''"
    "starts (snd (run exampleProps (keystrokes ((5, js ''h'') # exampleKeys)) initial)) = [] @ [5, 305, 1304]"
    "stops (snd (run exampleProps (keystrokes ((5, js ''h'') # exampleKeys)) initial)) = []"
    "stops (snd (run exampleProps (keystrokes ((5, js ''h'') # exampleKeys) @ [Elapse 1000]) initial)) =
       [] @ [last [5, 305, 1304] + 1000]"
    by blast+
  then show ?thesis using t e g by simp
qed

section \<open>Picking a file\<close>

text \<open>
  C6. A picked file of more than 5 MiB, or whose type does not start with
  \<^verbatim>\<open>image/\<close>, is rejected: the size message is alerted for a file that is too
  large, the type message otherwise, and selected file, preview, text and the uploading
  flag keep their values; no object URL is created, and the commit after the handler
  changes nothing.
\<close>

theorem handleImageSelect_rejects:
  assumes "file_size f > 5 * 1024 * 1024 \<or> \<not> startsWith (file_type f) (js ''image/'')"
  shows
   "(let c = handleImageSelect (Some f) (s, w) in
       alerts (snd c) = alerts w @
         [if file_size f > 5 * 1024 * 1024 then js ''File size must be less than 5MB''
          else js ''Please select an image file''] \<and>
       selectedFile (fst c) = selectedFile s \<and> selectedImage (fst c) = selectedImage s \<and>
       text_s (fst c) = text_s s \<and> uploading (fst c) = uploading s \<and>
       liveURLs (snd c) = liveURLs w \<and>
       step p (FileChange (Some f)) (s, w) = c)"
  using assms
  by (auto simp: handleImageSelect_def alert_def alerts_emit resetFileInput_fields emit_fields
        commit_def Let_def)

theorem handleImageSelect_rejects_witness:
  "file_size bigFile > 5 * 1024 * 1024 \<and>
   \<not> startsWith (file_type textFile) (js ''image/'') \<and>
   alerts (snd (handleImageSelect (Some bigFile) (exampleState, snd initial))) =
     [js ''File size must be less than 5MB''] \<and>
   alerts (snd (handleImageSelect (Some textFile) (exampleState, snd initial))) =
     [js ''Please select an image file''] \<and>
   selectedFile (fst (handleImageSelect (Some bigFile) (exampleState, snd initial))) = Some fileA \<and>
   selectedFile (fst (handleImageSelect (Some textFile) (exampleState, snd initial))) = Some fileA"
proof -
  have b: "file_size bigFile > 5 * 1024 * 1024" by (simp add: bigFile_def)
  have t: "\<not> startsWith (file_type textFile) (js ''image/'')" "\<not> file_size textFile > 5 * 1024 * 1024"
    by (simp_all add: textFile_def startsWith_def js_def)
  have e: "alerts (snd initial) = []" by (simp add: initial_def alerts_def)
  have h: "selectedFile exampleState = Some fileA" by (simp add: exampleState_def)
  from b have b': "file_size bigFile > 5 * 1024 * 1024 \<or> \<not> startsWith (file_type bigFile) (js ''image/'')" by simp
  from t have t': "file_size textFile > 5 * 1024 * 1024 \<or> \<not> startsWith (file_type textFile) (js ''image/'')" by simp
  from handleImageSelect_rejects [OF b', of exampleState "snd initial" exampleProps]
       handleImageSelect_rejects [OF t', of exampleState "snd initial" exampleProps]
  show ?thesis using b t by (simp add: e h Let_def)
qed

text \<open>
  C7, amended. In every reachable state the object URLs alive are exactly the preview
  held in the state (none or one), and the preview is held exactly when a file is.
  Accepting a new file stores the new file and a fresh preview handle; the handle of the
  preview held before is revoked by the effect cleanup of the commit, after the new
  handle was created, and when the event has been handled the new handle alone is alive.
  After unmount no handle is alive.
\<close>

theorem preview_handle_replaced_and_released:
  "liveURLs (snd (run p evs initial)) =
     (case selectedImage (fst (run p evs initial)) of None \<Rightarrow> [] | Some u \<Rightarrow> [u]) \<and>
   (selectedImage (fst (run p evs initial)) = None) =
     (selectedFile (fst (run p evs initial)) = None) \<and>
   liveURLs (unmount (run p evs initial)) = [] \<and>
   (accepted f \<longrightarrow>
      step p (FileChange (Some f)) (run p evs initial) =
        ((fst (run p evs initial))
           \<lparr>selectedFile := Some f, selectedImage := Some (nextURL (snd (run p evs initial)))\<rparr>,
         (snd (run p evs initial))
           \<lparr>liveURLs := [nextURL (snd (run p evs initial))],
            nextURL := Suc (nextURL (snd (run p evs initial))),
            log := log (snd (run p evs initial)) @
              (now (snd (run p evs initial)),
               CreateObjectURL f (nextURL (snd (run p evs initial)))) #
              (case selectedImage (fst (run p evs initial)) of
                 None \<Rightarrow> []
               | Some u \<Rightarrow> [(now (snd (run p evs initial)), RevokeObjectURL u)])\<rparr>))"
proof (intro conjI impI)
  show "liveURLs (snd (run p evs initial)) =
     (case selectedImage (fst (run p evs initial)) of None \<Rightarrow> [] | Some u \<Rightarrow> [u])"
    and "(selectedImage (fst (run p evs initial)) = None) =
     (selectedFile (fst (run p evs initial)) = None)"
    using urlInv_live [OF urlInv_reach, of p evs] by simp_all
  show "liveURLs (unmount (run p evs initial)) = []"
    by (rule unmount_releases) (rule urlInv_reach)
next
  assume a: "accepted f"
  obtain s w where c: "run p evs initial = (s, w)" by (cases "run p evs initial")
  from urlInv_reach [of p evs] c have "urlInv (s, w)" by simp
  from accept_step [OF this a, of p] show "step p (FileChange (Some f)) (run p evs initial) =
        ((fst (run p evs initial))
           \<lparr>selectedFile := Some f, selectedImage := Some (nextURL (snd (run p evs initial)))\<rparr>,
         (snd (run p evs initial))
           \<lparr>liveURLs := [nextURL (snd (run p evs initial))],
            nextURL := Suc (nextURL (snd (run p evs initial))),
            log := log (snd (run p evs initial)) @
              (now (snd (run p evs initial)),
               CreateObjectURL f (nextURL (snd (run p evs initial)))) #
              (case selectedImage (fst (run p evs initial)) of
                 None \<Rightarrow> []
               | Some u \<Rightarrow> [(now (snd (run p evs initial)), RevokeObjectURL u)])\<rparr>)"
    unfolding c by (simp only: fst_conv snd_conv)
qed

theorem preview_handle_replaced_and_released_witness:
  "accepted fileB \<and>
   run exampleProps [FileChange (Some fileA), FileChange (Some fileB)] initial =
     (\<lparr>text_s = [], uploading = False, selectedImage = Some 1, selectedFile = Some fileB,
       fileInputRef = Some [], typingTimeoutRef = None\<rparr>,
      \<lparr>now = 0, timers = [], timerCount = 0, liveURLs = [1], nextURL = 2, uploads = [],
       log = [(0, CreateObjectURL fileA 0), (0, CreateObjectURL fileB 1),
              (0, RevokeObjectURL 0)]\<rparr>) \<and>
   liveURLs (unmount
     (run exampleProps [FileChange (Some fileA), FileChange (Some fileB)] initial)) = []"
proof -
  from preview_handle_replaced_and_released
         [of exampleProps "[FileChange (Some fileA)]" fileB] accepted_fileB
  have "run exampleProps [FileChange (Some fileA), FileChange (Some fileB)] initial =
     (\<lparr>text_s = [], uploading = False, selectedImage = Some 1, selectedFile = Some fileB,
       fileInputRef = Some [], typingTimeoutRef = None\<rparr>,
      \<lparr>now = 0, timers = [], timerCount = 0, liveURLs = [1], nextURL = 2, uploads = [],
       log = [(0, CreateObjectURL fileA 0), (0, CreateObjectURL fileB 1),
              (0, RevokeObjectURL 0)]\<rparr>)"
    by (simp add: run_two example_select_A)
  moreover from preview_handle_replaced_and_released
         [of exampleProps "[FileChange (Some fileA), FileChange (Some fileB)]" fileB]
  have "liveURLs (unmount
     (run exampleProps [FileChange (Some fileA), FileChange (Some fileB)] initial)) = []"
    by blast
  ultimately show ?thesis using accepted_fileB by simp
qed

text \<open>
  C7 as stated fails. Selecting file A and then file B: when \<^verbatim>\<open>handleImageSelect\<close> has created and
  retained the handle of B, the handle of A is still alive; it is revoked afterwards, by
  the effect cleanup.
\<close>

theorem prior_handle_released_first_counterexample:
  "liveURLs (snd (handleImageSelect (Some fileB)
      (run exampleProps [FileChange (Some fileA)] initial))) = [1, 0] \<and>
   selectedImage (fst (handleImageSelect (Some fileB)
      (run exampleProps [FileChange (Some fileA)] initial))) = Some 1 \<and>
   map snd (log (snd
      (run exampleProps [FileChange (Some fileA), FileChange (Some fileB)] initial))) =
     [CreateObjectURL fileA 0, CreateObjectURL fileB 1, RevokeObjectURL 0]"
  by (simp add: run_two example_select_A handleImageSelect_def fileB_def startsWith_def js_def
        createObjectURL_def emit_def commit_def cleanup_def revokeObjectURL_def)

text \<open>
  C10. When the change event of the file picker delivers no file,
  \<^verbatim>\<open>handleImageSelect\<close> returns at line 144: the component state (selected file,
  preview, file input) and the environment (no alert, no object URL) are what they
  were, also after the commit that follows the handler.
\<close>

theorem handleImageSelect_cancel:
  "handleImageSelect None (s, w) = (s, w) \<and> step p (FileChange None) (s, w) = (s, w)"
  by (simp add: handleImageSelect_def commit_def)

end
